theory Spec2Isabelle
  imports Complex_Main
begin

section \<open>Command-line parsing of the engine (scripts/watcher.py, main, lines 207-217)\<close>

text \<open>
  \<^verbatim>\<open>
  api_url = SERVER_URL
  api_secret = None
  for i, arg in enumerate(sys.argv):
      if arg == "--upload" and i + 1 < len(sys.argv):
          api_url = sys.argv[i + 1]
          if i + 2 < len(sys.argv) and not sys.argv[i + 2].startswith("--"):
              api_secret = sys.argv[i + 2]
          break
      elif arg == "--secret" and i + 1 < len(sys.argv):
          api_secret = sys.argv[i + 1]
  \<close>
  The loop walks \<open>sys.argv\<close> from index 0. The model recurses on the suffix that starts
  at index \<open>i\<close>: \<open>arg\<close> is its head, \<open>sys.argv[i + 1]\<close> the head of the rest and
  \<open>sys.argv[i + 2]\<close> the element after that. \<open>break\<close> is the equation that does not
  recurse. The same loop stands in scripts/prompt\_words/watcher.py (lines 185-192).
\<close>

definition startswith :: "string \<Rightarrow> string \<Rightarrow> bool" where
  "startswith s p \<longleftrightarrow> take (length p) s = p"

fun scan_argv :: "string list \<Rightarrow> string option \<times> string option \<Rightarrow> string option \<times> string option" where
  "scan_argv [] (api_url, api_secret) = (api_url, api_secret)"
| "scan_argv (arg # rest) (api_url, api_secret) =
     (if arg = ''--upload'' \<and> rest \<noteq> [] then
        (Some (hd rest),
         (if tl rest \<noteq> [] \<and> \<not> startswith (hd (tl rest)) ''--''
          then Some (hd (tl rest)) else api_secret))
      else if arg = ''--secret'' \<and> rest \<noteq> [] then
        scan_argv rest (api_url, Some (hd rest))
      else scan_argv rest (api_url, api_secret))"

text \<open>\<open>SERVER_URL\<close> comes from a module that is not part of the sources; it is a parameter.\<close>

definition parse_args :: "string option \<Rightarrow> string list \<Rightarrow> string option \<times> string option" where
  "parse_args SERVER_URL argv = scan_argv argv (SERVER_URL, None)"

section \<open>The supervisor (scripts/unified\_watcher.py, class WatcherProcess)\<close>

text \<open>
  \<open>self.process\<close> is \<open>None\<close> before the first start, a running child afterwards, or a
  child that has exited with a return code. Times are the values of \<open>time.time()\<close>.
\<close>

datatype process = NoProcess | Running | Exited int

record WatcherProcess =
  process :: process
  restart_count :: nat
  max_restarts :: nat
  restart_window :: real
  restart_times :: "real list"

datatype py_error = AttributeError

text \<open>\<open>__init__\<close> (lines 20-28).\<close>

definition init_watcher :: WatcherProcess where
  "init_watcher = \<lparr>process = NoProcess, restart_count = 0, max_restarts = 5,
     restart_window = 60, restart_times = []\<rparr>"

text \<open>\<open>is_alive\<close> (lines 59-63).\<close>

definition is_alive :: "WatcherProcess \<Rightarrow> bool" where
  "is_alive w \<longleftrightarrow> (case process w of NoProcess \<Rightarrow> False | Running \<Rightarrow> True | Exited c \<Rightarrow> False)"

text \<open>
  \<open>start\<close> (lines 30-57): nothing happens when the child is running; otherwise a new
  child is spawned.
\<close>

definition start :: "WatcherProcess \<Rightarrow> WatcherProcess" where
  "start w = (if process w = Running then w else w\<lparr>process := Running\<rparr>)"

text \<open>
  \<open>check_and_restart\<close> (lines 65-86). Reading \<open>self.process.returncode\<close> raises
  AttributeError when no child was ever started.
\<close>

definition check_and_restart :: "WatcherProcess \<Rightarrow> real \<Rightarrow> py_error + (bool \<times> WatcherProcess)" where
  "check_and_restart w current_time =
     (if is_alive w then Inr (False, w)
      else if process w = NoProcess then Inl AttributeError
      else
        let w1 = w\<lparr>restart_times := filter (\<lambda>t. current_time - t < restart_window w) (restart_times w)\<rparr>
        in if length (restart_times w1) \<ge> max_restarts w1 then Inr (False, w1)
           else Inr (True, start (w1\<lparr>restart_times := restart_times w1 @ [current_time],
                                      restart_count := restart_count w1 + 1\<rparr>)))"

text \<open>
  The monitoring loop of \<open>main\<close> (lines 166-177) calls \<open>check_and_restart\<close> on every
  round. An observation of one instance is the clock value of a round together with what
  the child did since the last round: it kept its state, or it exited with a code.
\<close>

definition child_exits :: "int \<Rightarrow> WatcherProcess \<Rightarrow> WatcherProcess" where
  "child_exits c w = (if process w = Running then w\<lparr>process := Exited c\<rparr> else w)"

fun monitor :: "WatcherProcess \<Rightarrow> (real \<times> int option) list \<Rightarrow> py_error + (bool list \<times> WatcherProcess)" where
  "monitor w [] = Inr ([], w)"
| "monitor w ((now, ex) # rounds) =
     (case check_and_restart (case ex of None \<Rightarrow> w | Some c \<Rightarrow> child_exits c w) now of
        Inl e \<Rightarrow> Inl e
      | Inr (restarted, w') \<Rightarrow>
          (case monitor w' rounds of
             Inl e \<Rightarrow> Inl e
           | Inr (bs, w'') \<Rightarrow> Inr (restarted # bs, w'')))"

section \<open>The counting engine (scripts/watcher.py)\<close>

subsection \<open>Data\<close>

text \<open>
  A parsed log line is a JSON value (numbers are integers here). A Python dict is an
  association list read with \<open>map_of\<close>, or a map where only look-ups and updates occur.
\<close>

datatype json = JNull | JBool bool | JInt int | JString string
  | JArray "json list" | JObject "(string \<times> json) list"

text \<open>
  What \<open>process_message_entry\<close> returns for a usable entry: \<open>result["msg_id"]\<close>,
  \<open>result["date_str"]\<close> and \<open>result["text_blocks"]\<close>, a list of pairs
  \<open>(text, matched_patterns)\<close>; of the dict \<open>matched_patterns\<close> the engine reads the
  keys and the truth value only, so a block carries the list of its keys.
\<close>

record result =
  msg_id :: string
  date_str :: string
  text_blocks :: "(string \<times> string list) list"

text \<open>
  The names imported from \<open>claude_counter\<close>, a module that is not among the sources, and
  the two library calls whose result depends on the text of a line, are parameters:
  \<^item> \<open>PATTERNS\<close>: the keys of the dict \<open>PATTERNS\<close>, in its order;
  \<^item> \<open>today_utc\<close>: the value of \<open>get_utc_today()\<close>, taken as fixed during a run;
  \<^item> \<open>json_loads\<close>: \<open>json.loads\<close>, \<open>None\<close> where it raises;
  \<^item> \<open>process_message_entry\<close>: \<open>None\<close> where the result is falsy (\<open>if not result: continue\<close>)
    or the call raises (the \<open>except: continue\<close> around it); both skip the line before
    anything is changed;
  \<^item> \<open>iso_date\<close>: \<open>datetime.fromisoformat(ts.replace("Z", "+00:00")).strftime("%Y-%m-%d")\<close>,
    \<open>None\<close> where it raises;
  \<^item> \<open>get_project_display_name\<close>.
\<close>

record deps =
  PATTERNS :: "string list"
  today_utc :: string
  json_loads :: "string \<Rightarrow> json option"
  process_message_entry :: "json \<Rightarrow> result option"
  iso_date :: "string \<Rightarrow> string option"
  get_project_display_name :: "string \<Rightarrow> string"

text \<open>
  \<open>CLAUDE_PROJECTS_BASE\<close> as one scan sees it: \<open>None\<close> when the directory does not
  exist, otherwise its entries in the order of \<open>iterdir()\<close>. An entry has a name, is a
  directory or not, and holds the files that match \<open>*.jsonl\<close> in the order of \<open>glob\<close>;
  a file is \<open>None\<close> when \<open>open\<close> raises, otherwise its lines. A read that fails in the
  middle of a file ends that file (the outer \<open>except: pass\<close>): it is the file with
  the lines read up to there.
\<close>

record project_dir =
  dir_name :: string
  dir_is_dir :: bool
  jsonl_files :: "string list option list"

type_synonym projects_base = "project_dir list option"

text \<open>The local variables of \<open>main\<close> that hold the stores and the tallies of one pass.\<close>

record vars =
  processed_ids :: "string set"
  project_counts :: "string \<rightharpoonup> int"
  pattern_counts :: "string \<rightharpoonup> (string \<rightharpoonup> int)"
  total_messages_counts :: "string \<rightharpoonup> int"
  new_matches_by_pattern :: "string \<rightharpoonup> int"
  new_total_messages :: int

text \<open>
  The store files under \<open>DATA_DIR\<close>. A file that is missing or does not parse is
  \<open>None\<close>: the \<open>load_\<close> functions treat both alike.
\<close>

record disk =
  processed_ids_file :: "string set option"
  project_counts_file :: "(string \<rightharpoonup> int) option"
  pattern_counts_files :: "string \<rightharpoonup> (string \<rightharpoonup> int)"
  total_messages_file :: "(string \<rightharpoonup> int) option"

datatype store_file = ProcessedIdsFile | ProjectCountsFile | PatternCountsFile string | TotalMessagesFile

text \<open>
  The lines that \<open>main\<close> and the backfill functions print, by kind; \<open>Banner\<close> stands
  for the lines 219-228.
\<close>

datatype message = Banner | BackfillingTotal | FoundTotal int | BackfillingPatterns
  | FoundMatches string int | UploadingToday | UploadSuccessful | UploadFailed | Separator
  | ProjectsDirNotFound | SetEnvironmentHint | Updated | UploadedToApi

text \<open>
  What the process does to the outside, in order: a line printed by \<open>main\<close> or a backfill
  function, a store file rewritten, a call of \<open>upload_to_api\<close> with the date, the pattern
  counts and the total. The notification printed for a matching message inside the scan
  changes no variable and is not recorded.
\<close>

datatype event = Printed message | Wrote store_file | Uploaded string "(string \<times> int) list" int

record io =
  files :: disk
  trace :: "event list"

subsection \<open>Loading and saving (lines 27-96)\<close>

definition load_processed_ids :: "disk \<Rightarrow> string set" where
  "load_processed_ids d = (case processed_ids_file d of None \<Rightarrow> {} | Some ids \<Rightarrow> ids)"

definition load_project_counts :: "disk \<Rightarrow> (string \<rightharpoonup> int)" where
  "load_project_counts d = (case project_counts_file d of None \<Rightarrow> Map.empty | Some c \<Rightarrow> c)"

definition load_pattern_counts :: "disk \<Rightarrow> string \<Rightarrow> (string \<rightharpoonup> int)" where
  "load_pattern_counts d pattern_name =
     (case pattern_counts_files d pattern_name of None \<Rightarrow> Map.empty | Some c \<Rightarrow> c)"

definition load_total_messages_counts :: "disk \<Rightarrow> (string \<rightharpoonup> int)" where
  "load_total_messages_counts d = (case total_messages_file d of None \<Rightarrow> Map.empty | Some c \<Rightarrow> c)"

definition emit :: "event \<Rightarrow> io \<Rightarrow> io" where
  "emit e w = w\<lparr>trace := trace w @ [e]\<rparr>"

definition save_processed_ids :: "string set \<Rightarrow> io \<Rightarrow> io" where
  "save_processed_ids ids_set w =
     emit (Wrote ProcessedIdsFile) (w\<lparr>files := (files w)\<lparr>processed_ids_file := Some ids_set\<rparr>\<rparr>)"

definition save_project_counts :: "(string \<rightharpoonup> int) \<Rightarrow> io \<Rightarrow> io" where
  "save_project_counts counts w =
     emit (Wrote ProjectCountsFile) (w\<lparr>files := (files w)\<lparr>project_counts_file := Some counts\<rparr>\<rparr>)"

definition save_pattern_counts :: "string \<Rightarrow> (string \<rightharpoonup> int) \<Rightarrow> io \<Rightarrow> io" where
  "save_pattern_counts pattern_name counts w =
     emit (Wrote (PatternCountsFile pattern_name))
       (w\<lparr>files := (files w)\<lparr>pattern_counts_files := (pattern_counts_files (files w))(pattern_name \<mapsto> counts)\<rparr>\<rparr>)"

definition save_total_messages_counts :: "(string \<rightharpoonup> int) \<Rightarrow> io \<Rightarrow> io" where
  "save_total_messages_counts counts w =
     emit (Wrote TotalMessagesFile) (w\<lparr>files := (files w)\<lparr>total_messages_file := Some counts\<rparr>\<rparr>)"

subsection \<open>Small Python idioms\<close>

text \<open>\<open>d.get(k, 0)\<close>.\<close>

definition get0 :: "('k \<rightharpoonup> int) \<Rightarrow> 'k \<Rightarrow> int" where
  "get0 d k = (case d k of None \<Rightarrow> 0 | Some c \<Rightarrow> c)"

text \<open>\<open>if k not in d: d[k] = 0\<close> followed by \<open>d[k] += 1\<close>.\<close>

definition incr :: "('k \<rightharpoonup> int) \<Rightarrow> 'k \<Rightarrow> ('k \<rightharpoonup> int)" where
  "incr d k = d(k \<mapsto> get0 d k + 1)"

text \<open>\<open>{name: 0 for name in PATTERNS}\<close>.\<close>

definition zero_tally :: "string list \<Rightarrow> (string \<rightharpoonup> int)" where
  "zero_tally names = (\<lambda>name. if name \<in> set names then Some 0 else None)"

text \<open>
  A Python set that is iterated is a list without repetitions, in the order of first
  insertion; \<open>set_update s ks\<close> is \<open>s.update(ks)\<close>. Python leaves the iteration order
  of a set open; it matters below only when a name outside \<open>PATTERNS\<close> raises KeyError.
\<close>

fun set_update :: "'a list \<Rightarrow> 'a list \<Rightarrow> 'a list" where
  "set_update s [] = s"
| "set_update s (k # ks) = set_update (if k \<in> set s then s else s @ [k]) ks"

text \<open>The truth value of a Python object.\<close>

fun truthy :: "json \<Rightarrow> bool" where
  "truthy JNull = False"
| "truthy (JBool b) = b"
| "truthy (JInt n) = (n \<noteq> 0)"
| "truthy (JString s) = (s \<noteq> [])"
| "truthy (JArray xs) = (xs \<noteq> [])"
| "truthy (JObject kvs) = (kvs \<noteq> [])"

text \<open>
  The element a hashable JSON value is in a Python set: \<open>True\<close> and \<open>1\<close> are the same
  element, a list or a dict raises TypeError (\<open>None\<close>).
\<close>

fun set_key :: "json \<Rightarrow> json option" where
  "set_key (JArray xs) = None"
| "set_key (JObject kvs) = None"
| "set_key (JBool b) = Some (JInt (if b then 1 else 0))"
| "set_key v = Some v"

subsection \<open>Walking the project directories\<close>

text \<open>
  The two backfill functions and the steady-state loop walk the files in the same way:
  \<^verbatim>\<open>
  for project_dir in Path(CLAUDE_PROJECTS_BASE).iterdir():
      if project_dir.is_dir() and not project_dir.name.startswith("."):
          project_name = get_project_display_name(project_dir.name)
          for jsonl_file in project_dir.glob("*.jsonl"):
              try:
                  with open(jsonl_file, "r") as f:
                      for line in f:
                          try: ...
                          except: continue
              except: pass
  \<close>
  \<open>on_line\<close> is the body of the inner \<open>try\<close>, from the variables before the line to the
  variables after it.
\<close>

definition scan_file :: "('a \<Rightarrow> string \<Rightarrow> 'a) \<Rightarrow> 'a \<Rightarrow> string list option \<Rightarrow> 'a" where
  "scan_file on_line acc file = (case file of None \<Rightarrow> acc | Some lines \<Rightarrow> foldl on_line acc lines)"

definition scan_project :: "(string \<Rightarrow> 'a \<Rightarrow> string \<Rightarrow> 'a) \<Rightarrow> deps \<Rightarrow> 'a \<Rightarrow> project_dir \<Rightarrow> 'a" where
  "scan_project on_line D acc project_dir =
     (if dir_is_dir project_dir \<and> \<not> startswith (dir_name project_dir) ''.'' then
        foldl (scan_file (on_line (get_project_display_name D (dir_name project_dir)))) acc
          (jsonl_files project_dir)
      else acc)"

definition scan_projects :: "(string \<Rightarrow> 'a \<Rightarrow> string \<Rightarrow> 'a) \<Rightarrow> deps \<Rightarrow> 'a \<Rightarrow> project_dir list \<Rightarrow> 'a" where
  "scan_projects on_line D acc dirs = foldl (scan_project on_line D) acc dirs"

subsection \<open>\<open>backfill_today_total_messages\<close> (lines 99-135)\<close>

text \<open>
  \<open>seen_message_ids\<close> is a set that is only tested, extended and measured; it is the list
  of its elements. Every way in which the body can raise ends the line with the set
  unchanged: \<open>entry.get\<close> on a value that is no dict, \<open>replace\<close> on a timestamp that is
  no string, \<open>fromisoformat\<close>, and the membership test of an unhashable identifier.
\<close>

fun total_entry :: "deps \<Rightarrow> json list \<Rightarrow> json \<Rightarrow> json list" where
  "total_entry D seen_message_ids (JObject kvs) =
     (let get = (\<lambda>key dflt. case map_of kvs key of None \<Rightarrow> dflt | Some v \<Rightarrow> v) in
      if get ''type'' JNull = JString ''assistant'' then
        let msg_id = (if truthy (get ''uuid'' JNull) then get ''uuid'' JNull else get ''requestId'' JNull) in
        if \<not> truthy msg_id then seen_message_ids
        else
          let timestamp = get ''timestamp'' (JString []) in
          if truthy timestamp then
            (case timestamp of
               JString ts \<Rightarrow>
                 (case iso_date D ts of
                    None \<Rightarrow> seen_message_ids
                  | Some date \<Rightarrow>
                      if date = today_utc D then
                        (case set_key msg_id of
                           None \<Rightarrow> seen_message_ids
                         | Some k \<Rightarrow> if k \<notin> set seen_message_ids then seen_message_ids @ [k]
                                     else seen_message_ids)
                      else seen_message_ids)
             | _ \<Rightarrow> seen_message_ids)
          else seen_message_ids
      else seen_message_ids)"
| "total_entry D seen_message_ids _ = seen_message_ids"

definition total_line :: "deps \<Rightarrow> string \<Rightarrow> json list \<Rightarrow> string \<Rightarrow> json list" where
  "total_line D project_name seen_message_ids line =
     (case json_loads D line of None \<Rightarrow> seen_message_ids
      | Some entry \<Rightarrow> total_entry D seen_message_ids entry)"

definition backfill_today_total_messages :: "deps \<Rightarrow> projects_base \<Rightarrow> int" where
  "backfill_today_total_messages D base =
     (case base of None \<Rightarrow> 0
      | Some dirs \<Rightarrow> int (length (scan_projects (total_line D) D [] dirs)))"

subsection \<open>\<open>backfill_today_patterns\<close> (lines 138-199)\<close>

text \<open>
  The locals of the function, with the two arguments it mutates: \<open>processed_ids\<close> and
  \<open>project_counts\<close>.
\<close>

record bvars =
  pattern_matches :: "string \<rightharpoonup> int"
  seen_today :: "string set"
  bf_processed_ids :: "string set"
  bf_project_counts :: "string \<rightharpoonup> int"

text \<open>
  Lines 181-183: the union of the keys of all blocks.
\<close>

definition backfill_message_patterns :: "(string \<times> string list) list \<Rightarrow> string list" where
  "backfill_message_patterns blocks =
     foldl (\<lambda>message_patterns (text, matched_patterns). set_update message_patterns matched_patterns)
       [] blocks"

text \<open>
  Lines 185-192. \<open>pattern_matches[pattern_name] += 1\<close> raises KeyError for a name that
  is no key; the \<open>except: continue\<close> of the line then leaves what was changed so far.
\<close>

fun tally_patterns :: "string \<Rightarrow> string list \<Rightarrow> bvars \<Rightarrow> bvars" where
  "tally_patterns project_name [] b = b"
| "tally_patterns project_name (pattern_name # rest) b =
     (case pattern_matches b pattern_name of
        None \<Rightarrow> b
      | Some n \<Rightarrow>
          let b1 = b\<lparr>pattern_matches := (pattern_matches b)(pattern_name \<mapsto> n + 1)\<rparr>;
              b2 = (if pattern_name = ''absolutely''
                    then b1\<lparr>bf_project_counts := incr (bf_project_counts b1) project_name\<rparr>
                    else b1)
          in tally_patterns project_name rest b2)"

definition backfill_line :: "deps \<Rightarrow> string \<Rightarrow> bvars \<Rightarrow> string \<Rightarrow> bvars" where
  "backfill_line D project_name b line =
     (case json_loads D line of None \<Rightarrow> b
      | Some entry \<Rightarrow>
          (case process_message_entry D entry of None \<Rightarrow> b
           | Some result \<Rightarrow>
               if date_str result \<noteq> today_utc D then b
               else if msg_id result \<in> seen_today b then b
               else
                 let b1 = b\<lparr>seen_today := insert (msg_id result) (seen_today b),
                            bf_processed_ids := insert (msg_id result) (bf_processed_ids b)\<rparr>
                 in tally_patterns project_name
                      (backfill_message_patterns (text_blocks result)) b1))"

text \<open>
  The function returns \<open>pattern_matches\<close>; the model returns all its variables, so that
  the caller reads the mutated \<open>processed_ids\<close> and \<open>project_counts\<close> from them.
\<close>

definition backfill_today_patterns :: "deps \<Rightarrow> projects_base \<Rightarrow> string set \<Rightarrow> (string \<rightharpoonup> int) \<Rightarrow> bvars" where
  "backfill_today_patterns D base ids counts =
     (let b = \<lparr>pattern_matches = zero_tally (PATTERNS D), seen_today = {},
               bf_processed_ids = ids, bf_project_counts = counts\<rparr>
      in case base of None \<Rightarrow> b
         | Some dirs \<Rightarrow> scan_projects (backfill_line D) D b dirs)"

subsection \<open>One line of the steady-state loop (lines 306-359)\<close>

text \<open>Lines 329-335: only blocks with a non-empty \<open>matched_patterns\<close> are read.\<close>

definition steady_message_patterns :: "(string \<times> string list) list \<Rightarrow> string list" where
  "steady_message_patterns blocks =
     foldl (\<lambda>message_patterns (text, matched_patterns).
              if matched_patterns \<noteq> [] then set_update message_patterns matched_patterns
              else message_patterns)
       [] blocks"

text \<open>
  Lines 338-350. \<open>new_matches_by_pattern[pattern_name] += 1\<close> and
  \<open>pattern_counts[pattern_name]\<close> raise KeyError for a name that is no key; the line ends
  there with what was changed so far.
\<close>

fun count_patterns :: "string \<Rightarrow> string \<Rightarrow> string list \<Rightarrow> vars \<Rightarrow> vars" where
  "count_patterns project_name date [] v = v"
| "count_patterns project_name date (pattern_name # rest) v =
     (case new_matches_by_pattern v pattern_name of
        None \<Rightarrow> v
      | Some n \<Rightarrow>
          let v1 = v\<lparr>new_matches_by_pattern := (new_matches_by_pattern v)(pattern_name \<mapsto> n + 1)\<rparr> in
          (case pattern_counts v1 pattern_name of
             None \<Rightarrow> v1
           | Some counts \<Rightarrow>
               let v2 = v1\<lparr>pattern_counts := (pattern_counts v1)(pattern_name \<mapsto> incr counts date)\<rparr>;
                   v3 = (if pattern_name = ''absolutely''
                         then v2\<lparr>project_counts := incr (project_counts v2) project_name\<rparr>
                         else v2)
               in count_patterns project_name date rest v3))"

definition steady_line :: "deps \<Rightarrow> string \<Rightarrow> vars \<Rightarrow> string \<Rightarrow> vars" where
  "steady_line D project_name v line =
     (case json_loads D line of None \<Rightarrow> v
      | Some entry \<Rightarrow>
          (case process_message_entry D entry of None \<Rightarrow> v
           | Some result \<Rightarrow>
               if msg_id result \<in> processed_ids v then v
               else
                 let v1 = v\<lparr>processed_ids := insert (msg_id result) (processed_ids v)\<rparr>;
                     v2 = v1\<lparr>total_messages_counts := incr (total_messages_counts v1) (date_str result),
                              new_total_messages := new_total_messages v1 + 1\<rparr>
                 in count_patterns project_name (date_str result)
                      (steady_message_patterns (text_blocks result)) v2))"

subsection \<open>\<open>main\<close>: startup (lines 235-284)\<close>

text \<open>\<open>if api_url:\<close> holds for a string that is not empty.\<close>

definition url_set :: "string option \<Rightarrow> bool" where
  "url_set api_url \<longleftrightarrow> (case api_url of None \<Rightarrow> False | Some u \<Rightarrow> u \<noteq> [])"

text \<open>
  \<open>{name: counts.get(today_utc, 0) for name, counts in pattern_counts.items()}\<close> and
  \<open>total_messages_counts.get(today_utc, 0)\<close>: what is handed to \<open>upload_to_api\<close>.
\<close>

definition today_patterns :: "deps \<Rightarrow> vars \<Rightarrow> (string \<times> int) list" where
  "today_patterns D v =
     concat (map (\<lambda>name. case pattern_counts v name of None \<Rightarrow> []
                          | Some counts \<Rightarrow> [(name, get0 counts (today_utc D))]) (PATTERNS D))"

definition upload_event :: "deps \<Rightarrow> vars \<Rightarrow> event" where
  "upload_event D v = Uploaded (today_utc D) (today_patterns D v) (get0 (total_messages_counts v) (today_utc D))"

text \<open>
  Lines 252-256, over the items of the dict that the backfill returned (its keys are
  \<open>PATTERNS\<close>, and so are the keys of \<open>pattern_counts\<close>; the two \<open>None\<close> cases stand for
  names that are no keys and are not reached from \<open>main\<close>):
  \<^verbatim>\<open>
  for pattern_name, count in backfill_pattern_matches.items():
      if count > 0:
          pattern_counts[pattern_name][today_utc] = count  # SET, not ADD
          save_pattern_counts(pattern_name, pattern_counts[pattern_name])
          print(f"Found {count} '{pattern_name}' matches for today")
  \<close>
\<close>

fun store_backfill :: "deps \<Rightarrow> (string \<rightharpoonup> int) \<Rightarrow> string list \<Rightarrow> vars \<times> io \<Rightarrow> vars \<times> io" where
  "store_backfill D backfill_pattern_matches [] (v, w) = (v, w)"
| "store_backfill D backfill_pattern_matches (pattern_name # rest) (v, w) =
     (case backfill_pattern_matches pattern_name of
        None \<Rightarrow> store_backfill D backfill_pattern_matches rest (v, w)
      | Some count \<Rightarrow>
          if count > 0 then
            (case pattern_counts v pattern_name of
               None \<Rightarrow> store_backfill D backfill_pattern_matches rest (v, w)
             | Some counts \<Rightarrow>
                 let counts' = counts(today_utc D \<mapsto> count);
                     v' = v\<lparr>pattern_counts := (pattern_counts v)(pattern_name \<mapsto> counts')\<rparr>;
                     w' = emit (Printed (FoundMatches pattern_name count))
                            (save_pattern_counts pattern_name counts' w)
                 in store_backfill D backfill_pattern_matches rest (v', w'))
          else store_backfill D backfill_pattern_matches rest (v, w))"

text \<open>
  The tallies \<open>new_matches_by_pattern\<close> and \<open>new_total_messages\<close> do not exist before the
  loop; they start empty here and are set at the head of every pass. \<open>upload_ok\<close> is what
  \<open>upload_to_api\<close> returns at startup. The two notices "Backfilling ..." are printed by the
  backfill functions after their test that the directory exists.
\<close>

definition startup :: "deps \<Rightarrow> string option \<Rightarrow> bool \<Rightarrow> projects_base \<Rightarrow> disk \<Rightarrow> vars \<times> io" where
  "startup D api_url upload_ok base d =
     (let w0 = emit (Printed Banner) \<lparr>files = d, trace = []\<rparr>;
          v0 = \<lparr>processed_ids = load_processed_ids d,
                project_counts = load_project_counts d,
                pattern_counts = (\<lambda>name. if name \<in> set (PATTERNS D)
                                          then Some (load_pattern_counts d name) else None),
                total_messages_counts = load_total_messages_counts d,
                new_matches_by_pattern = Map.empty,
                new_total_messages = 0\<rparr>;
          w1 = (if base \<noteq> None then emit (Printed BackfillingTotal) w0 else w0);
          today_total_actual = backfill_today_total_messages D base;
          v1 = v0\<lparr>total_messages_counts := (total_messages_counts v0)(today_utc D \<mapsto> today_total_actual)\<rparr>;
          w2 = emit (Printed (FoundTotal today_total_actual))
                 (save_total_messages_counts (total_messages_counts v1) w1);
          w3 = (if base \<noteq> None then emit (Printed BackfillingPatterns) w2 else w2);
          b = backfill_today_patterns D base (processed_ids v1) Map.empty;
          v2 = v1\<lparr>processed_ids := bf_processed_ids b, project_counts := bf_project_counts b\<rparr>;
          (v3, w4) = store_backfill D (pattern_matches b) (PATTERNS D) (v2, w3);
          w5 = save_project_counts (project_counts v3) (save_processed_ids (processed_ids v3) w4);
          w6 = (if url_set api_url then
                  emit (Printed (if upload_ok then UploadSuccessful else UploadFailed))
                    (emit (upload_event D v3) (emit (Printed UploadingToday) w5))
                else w5)
      in (v3, emit (Printed Separator) w6))"

subsection \<open>\<open>main\<close>: one pass of the loop (lines 293-391)\<close>

text \<open>\<open>any(new_matches_by_pattern.values()) or new_total_messages > 0\<close>.\<close>

definition new_activity :: "deps \<Rightarrow> vars \<Rightarrow> bool" where
  "new_activity D v \<longleftrightarrow>
     list_ex (\<lambda>name. case new_matches_by_pattern v name of None \<Rightarrow> False | Some c \<Rightarrow> c \<noteq> 0) (PATTERNS D)
     \<or> new_total_messages v > 0"

text \<open>Lines 365-369.\<close>

definition save_all :: "deps \<Rightarrow> vars \<Rightarrow> io \<Rightarrow> io" where
  "save_all D v w =
     (let w1 = save_project_counts (project_counts v) w;
          w2 = save_processed_ids (processed_ids v) w1;
          w3 = foldl (\<lambda>w' name. case pattern_counts v name of None \<Rightarrow> w'
                                  | Some counts \<Rightarrow> save_pattern_counts name counts w') w2 (PATTERNS D)
      in save_total_messages_counts (total_messages_counts v) w3)"

text \<open>
  A pass reads the directory as it is then (\<open>dirs\<close>) and, when it uploads, gets
  \<open>upload_ok\<close> back from \<open>upload_to_api\<close>.
\<close>

definition scan_pass :: "deps \<Rightarrow> project_dir list \<Rightarrow> vars \<Rightarrow> vars" where
  "scan_pass D dirs v =
     scan_projects (steady_line D) D
       (v\<lparr>new_matches_by_pattern := zero_tally (PATTERNS D), new_total_messages := 0\<rparr>) dirs"

definition steady_pass :: "deps \<Rightarrow> string option \<Rightarrow> vars \<times> io \<Rightarrow> project_dir list \<times> bool \<Rightarrow> vars \<times> io" where
  "steady_pass D api_url s r =
     (case (s, r) of ((v, w), (dirs, upload_ok)) \<Rightarrow>
        let v1 = scan_pass D dirs v in
        if new_activity D v1 then
          let w1 = emit (Printed Updated) (save_all D v1 w);
              w2 = (if url_set api_url then
                      let w' = emit (upload_event D v1) w1
                      in if upload_ok then emit (Printed UploadedToApi) w' else w'
                    else w1)
          in (v1, w2)
        else (v1, w))"

subsection \<open>\<open>main\<close> (lines 202-400)\<close>

text \<open>
  \<open>api_url\<close> is what the argument loop leaves (the first component of \<open>parse_args\<close>);
  the secret is only handed on to \<open>upload_to_api\<close>. \<open>base\<close> is the scan root as startup
  and the test of line 286 find it. \<open>rounds\<close> are the passes made before the process is
  interrupted: the \<open>while True\<close> loop has no exit of its own, and the lines printed
  at the interrupt change nothing. A pass whose \<open>iterdir()\<close> raises ends the process;
  the run up to there is the run over the shorter list.
\<close>

definition main :: "deps \<Rightarrow> string option \<Rightarrow> bool \<Rightarrow> projects_base \<Rightarrow> (project_dir list \<times> bool) list
    \<Rightarrow> disk \<Rightarrow> vars \<times> io" where
  "main D api_url upload_ok base rounds d =
     (case startup D api_url upload_ok base d of (v, w) \<Rightarrow>
        (case base of
           None \<Rightarrow> (v, emit (Printed SetEnvironmentHint) (emit (Printed ProjectsDirNotFound) w))
         | Some dirs \<Rightarrow> foldl (steady_pass D api_url) (v, w) rounds))"

section \<open>Notions used to state the properties\<close>

text \<open>
  What a line yields when it parses and \<open>process_message_entry\<close> accepts it.
\<close>

definition line_result :: "deps \<Rightarrow> string \<Rightarrow> result option" where
  "line_result D line =
     (case json_loads D line of None \<Rightarrow> None | Some entry \<Rightarrow> process_message_entry D entry)"

text \<open>
  The lines that one walk over the directories reads, in order, each with the
  \<open>project_name\<close> under which it is read.
\<close>

definition file_lines :: "string \<Rightarrow> string list option \<Rightarrow> (string \<times> string) list" where
  "file_lines project_name file =
     (case file of None \<Rightarrow> [] | Some lines \<Rightarrow> map (Pair project_name) lines)"

definition project_lines :: "deps \<Rightarrow> project_dir \<Rightarrow> (string \<times> string) list" where
  "project_lines D project_dir =
     (if dir_is_dir project_dir \<and> \<not> startswith (dir_name project_dir) ''.'' then
        concat (map (file_lines (get_project_display_name D (dir_name project_dir)))
                  (jsonl_files project_dir))
      else [])"

definition scanned_lines :: "deps \<Rightarrow> project_dir list \<Rightarrow> (string \<times> string) list" where
  "scanned_lines D dirs = concat (map (project_lines D) dirs)"

definition scan_lines :: "(string \<Rightarrow> 'a \<Rightarrow> string \<Rightarrow> 'a) \<Rightarrow> 'a \<Rightarrow> (string \<times> string) list \<Rightarrow> 'a" where
  "scan_lines on_line acc pls = foldl (\<lambda>a (project_name, line). on_line project_name a line) acc pls"

text \<open>
  The messages a steady-state walk counts when it starts with the processed ids \<open>P\<close>: a
  line counts when it yields a result whose id is neither in \<open>P\<close> nor the id of a line
  counted before it.
\<close>

fun counted :: "deps \<Rightarrow> string set \<Rightarrow> (string \<times> string) list \<Rightarrow> (string \<times> result) list" where
  "counted D P [] = []"
| "counted D P ((project_name, line) # rest) =
     (case line_result D line of
        None \<Rightarrow> counted D P rest
      | Some r \<Rightarrow> if msg_id r \<in> P then counted D P rest
                  else (project_name, r) # counted D (insert (msg_id r) P) rest)"


text \<open>The pattern names some block of a result carries.\<close>

definition matched :: "result \<Rightarrow> string set" where
  "matched r = (\<Union>block \<in> set (text_blocks r). set (snd block))"


text \<open>The value a per-pattern daily counter holds for a date, \<open>0\<close> when there is none.\<close>

definition daily :: "vars \<Rightarrow> string \<Rightarrow> string \<Rightarrow> int" where
  "daily v pattern_name date =
     (case pattern_counts v pattern_name of None \<Rightarrow> 0 | Some counts \<Rightarrow> get0 counts date)"

text \<open>The stores as the files hold them, read back with the \<open>load_\<close> functions.\<close>

definition stored_daily :: "io \<Rightarrow> string \<Rightarrow> string \<Rightarrow> int" where
  "stored_daily w pattern_name date = get0 (load_pattern_counts (files w) pattern_name) date"

definition stored_total :: "io \<Rightarrow> string \<Rightarrow> int" where
  "stored_total w date = get0 (load_total_messages_counts (files w)) date"


text \<open>A directory with one project that holds one log file.\<close>

definition one_file :: "string \<Rightarrow> string list \<Rightarrow> project_dir list" where
  "one_file name lines = [\<lparr>dir_name = name, dir_is_dir = True, jsonl_files = [Some lines]\<rparr>]"


section \<open>A concrete setting\<close>

text \<open>
  Two tracked patterns, six messages and the log lines that carry them; any other line
  does not parse. \<open>m1\<close> matches one pattern in two blocks and a second pattern in one.
\<close>

definition demo_messages :: "(string \<times> result) list" where
  "demo_messages =
     [(''L1'', \<lparr>msg_id = ''m1'', date_str = ''2024-01-02'',
               text_blocks = [(''Absolutely. Perfect.'', [''absolutely'', ''perfect'']),
                              (''absolutely'', [''absolutely''])]\<rparr>),
      (''L2'', \<lparr>msg_id = ''m2'', date_str = ''2024-01-02'',
               text_blocks = [(''absolutely right'', [''absolutely''])]\<rparr>),
      (''L3'', \<lparr>msg_id = ''m3'', date_str = ''2024-01-02'',
               text_blocks = [(''absolutely'', [''absolutely''])]\<rparr>),
      (''L4'', \<lparr>msg_id = ''m4'', date_str = ''2024-01-02'',
               text_blocks = [(''Absolutely!'', [''absolutely''])]\<rparr>),
      (''L5'', \<lparr>msg_id = ''m5'', date_str = ''2024-01-02'', text_blocks = [(''ok'', [])]\<rparr>),
      (''L6'', \<lparr>msg_id = ''m6'', date_str = ''2024-01-01'',
               text_blocks = [(''absolutely'', [''absolutely''])]\<rparr>)]"

definition demo_entry :: "result \<Rightarrow> json" where
  "demo_entry r = JObject [(''type'', JString ''assistant''), (''uuid'', JString (msg_id r)),
     (''timestamp'', JString (date_str r @ ''T08:00:00Z''))]"

definition demo :: deps where
  "demo = \<lparr>PATTERNS = [''absolutely'', ''perfect''],
            today_utc = ''2024-01-02'',
            json_loads = (\<lambda>line. map_option demo_entry (map_of demo_messages line)),
            process_message_entry = (\<lambda>entry. find (\<lambda>r. demo_entry r = entry) (map snd demo_messages)),
            iso_date = (\<lambda>ts. if length ts < 10 then None else Some (take 10 ts)),
            get_project_display_name = (\<lambda>name. name)\<rparr>"

definition no_files :: disk where
  "no_files = \<lparr>processed_ids_file = None, project_counts_file = None,
     pattern_counts_files = Map.empty, total_messages_file = None\<rparr>"

text \<open>
  Store files of an earlier run that hold 5 for today's count of the first pattern and 7
  for the day before.
\<close>

definition stale_files :: disk where
  "stale_files = no_files\<lparr>pattern_counts_files :=
     [''absolutely'' \<mapsto> [''2024-01-02'' \<mapsto> 5, ''2024-01-01'' \<mapsto> 7]]\<rparr>"

text \<open>
  An instance that was started, crashed at the clock values 0 to 5 and was looked at once
  more at 61 without a further exit.
\<close>

definition crash_rounds :: "(real \<times> int option) list" where
  "crash_rounds = [(0, Some 1), (1, Some 1), (2, Some 1), (3, Some 1), (4, Some 1),
     (5, Some 1), (61, None)]"

text \<open>Variables as \<open>main\<close> has them at the head of a first pass, and the locals of a backfill at its start.\<close>

definition demo_vars :: vars where
  "demo_vars = \<lparr>processed_ids = {}, project_counts = Map.empty,
     pattern_counts = [''absolutely'' \<mapsto> Map.empty, ''perfect'' \<mapsto> Map.empty],
     total_messages_counts = Map.empty,
     new_matches_by_pattern = zero_tally [''absolutely'', ''perfect''],
     new_total_messages = 0\<rparr>"

definition demo_bvars :: bvars where
  "demo_bvars = \<lparr>pattern_matches = zero_tally [''absolutely'', ''perfect''], seen_today = {},
     bf_processed_ids = {}, bf_project_counts = Map.empty\<rparr>"

section \<open>Notions used in the proofs\<close>

text \<open>
  Every result of the given lines that is dated today has its id in \<open>P\<close>: what the
  backfill leaves behind for the lines it has read.
\<close>

definition today_known :: "deps \<Rightarrow> string set \<Rightarrow> (string \<times> string) list \<Rightarrow> bool" where
  "today_known D P pls \<longleftrightarrow>
     list_all (\<lambda>(project_name, line).
        case line_result D line of None \<Rightarrow> True
        | Some r \<Rightarrow> date_str r = today_utc D \<longrightarrow> msg_id r \<in> P) pls"

text \<open>
  Every name of \<open>PATTERNS\<close> is a key of \<open>pattern_counts\<close> and of the tally of the pass,
  as \<open>main\<close> builds them (lines 238 and 293).
\<close>

definition keys_ok :: "deps \<Rightarrow> vars \<Rightarrow> bool" where
  "keys_ok D v \<longleftrightarrow>
     list_all (\<lambda>name. pattern_counts v name \<noteq> None \<and> new_matches_by_pattern v name \<noteq> None) (PATTERNS D)"

text \<open>The store files, read back, are the stores in memory.\<close>

definition synced :: "deps \<Rightarrow> vars \<Rightarrow> io \<Rightarrow> bool" where
  "synced D v w \<longleftrightarrow>
     load_processed_ids (files w) = processed_ids v
     \<and> load_project_counts (files w) = project_counts v
     \<and> load_total_messages_counts (files w) = total_messages_counts v
     \<and> (\<forall>name \<in> set (PATTERNS D). pattern_counts v name = Some (load_pattern_counts (files w) name))"

definition ready :: "deps \<Rightarrow> vars \<times> io \<Rightarrow> bool" where
  "ready D s \<longleftrightarrow> synced D (fst s) (snd s) \<and> set (PATTERNS D) \<subseteq> dom (pattern_counts (fst s))"

text \<open>
  \<open>startup\<close> in three stages: the variables and the output before the loop of lines
  252-256 (\<open>loaded\<close>, \<open>announced\<close>), that loop (\<open>store_backfill\<close>), and lines 258-284
  (\<open>finish_startup\<close>).
\<close>

definition loaded :: "deps \<Rightarrow> projects_base \<Rightarrow> disk \<Rightarrow> vars" where
  "loaded D base d =
     \<lparr>processed_ids = bf_processed_ids (backfill_today_patterns D base (load_processed_ids d) Map.empty),
      project_counts = bf_project_counts (backfill_today_patterns D base (load_processed_ids d) Map.empty),
      pattern_counts = (\<lambda>name. if name \<in> set (PATTERNS D)
                                then Some (load_pattern_counts d name) else None),
      total_messages_counts = (load_total_messages_counts d)(today_utc D \<mapsto> backfill_today_total_messages D base),
      new_matches_by_pattern = Map.empty,
      new_total_messages = 0\<rparr>"

definition announced :: "deps \<Rightarrow> projects_base \<Rightarrow> disk \<Rightarrow> io" where
  "announced D base d =
     (let w1 = (if base \<noteq> None then emit (Printed BackfillingTotal) (emit (Printed Banner) \<lparr>files = d, trace = []\<rparr>)
                else emit (Printed Banner) \<lparr>files = d, trace = []\<rparr>);
          w2 = emit (Printed (FoundTotal (backfill_today_total_messages D base)))
                 (save_total_messages_counts
                    ((load_total_messages_counts d)(today_utc D \<mapsto> backfill_today_total_messages D base)) w1)
      in if base \<noteq> None then emit (Printed BackfillingPatterns) w2 else w2)"

definition finish_startup :: "deps \<Rightarrow> string option \<Rightarrow> bool \<Rightarrow> vars \<times> io \<Rightarrow> vars \<times> io" where
  "finish_startup D api_url upload_ok s =
     (case s of (v3, w4) \<Rightarrow>
        let w5 = save_project_counts (project_counts v3) (save_processed_ids (processed_ids v3) w4);
            w6 = (if url_set api_url then
                    emit (Printed (if upload_ok then UploadSuccessful else UploadFailed))
                      (emit (upload_event D v3) (emit (Printed UploadingToday) w5))
                  else w5)
        in (v3, emit (Printed Separator) w6))"

section \<open>Properties of the command-line parsing\<close>

lemma scan_argv_upload:
  "scan_argv (''--upload'' # url # rest) (u, sec) =
     (Some url, (case rest of [] \<Rightarrow> sec | r # rest' \<Rightarrow> if startswith r ''--'' then sec else Some r))"
  by (cases rest) simp_all

lemma scan_argv_upload_last: "scan_argv [''--upload''] (u, sec) = (u, sec)"
  by simp

lemma scan_argv_skip:
  "arg \<noteq> ''--upload'' \<Longrightarrow>
   scan_argv (arg # x # rest) (u, sec) =
     scan_argv (x # rest) (u, if arg = ''--secret'' then Some x else sec)"
  by simp

lemma scan_argv_no_upload:
  "''--upload'' \<notin> set pre \<Longrightarrow>
   scan_argv (pre @ ''--upload'' # url # rest) (u, sec) =
     (Some url,
      (case rest of [] \<Rightarrow> snd (scan_argv (pre @ [''--upload'']) (u, sec))
       | r # rest' \<Rightarrow> if startswith r ''--'' then snd (scan_argv (pre @ [''--upload'']) (u, sec)) else Some r))"
proof (induction pre arbitrary: sec)
  case Nil
  show ?case
    by (simp only: append_Nil scan_argv_upload scan_argv_upload_last snd_conv)
next
  case (Cons a pre)
  from Cons.prems have a: "a \<noteq> ''--upload''" and pre: "''--upload'' \<notin> set pre"
    by auto
  show ?case
  proof (cases pre)
    case Nil
    show ?thesis
      unfolding Nil
      by (simp only: append_Cons append_Nil scan_argv_skip[OF a] scan_argv_upload scan_argv_upload_last snd_conv)
  next
    case (Cons b pre')
    have "scan_argv ((a # pre) @ ''--upload'' # url # rest) (u, sec) =
          scan_argv (pre @ ''--upload'' # url # rest) (u, if a = ''--secret'' then Some b else sec)"
      unfolding Cons by (simp only: append_Cons scan_argv_skip[OF a])
    moreover have "scan_argv ((a # pre) @ [''--upload'']) (u, sec) =
          scan_argv (pre @ [''--upload'']) (u, if a = ''--secret'' then Some b else sec)"
      unfolding Cons by (simp only: append_Cons scan_argv_skip[OF a])
    ultimately show ?thesis
      by (simp only: Cons.IH[OF pre])
  qed
qed

lemma scan_argv_plain:
  "''--upload'' \<notin> set xs \<Longrightarrow> ''--secret'' \<notin> set xs \<Longrightarrow> scan_argv xs cfg = cfg"
  by (induction xs arbitrary: cfg) auto

lemma scan_argv_secret_last:
  "''--upload'' \<notin> set pre \<Longrightarrow> ''--upload'' \<notin> set (s # rest) \<Longrightarrow> ''--secret'' \<notin> set (s # rest) \<Longrightarrow>
   scan_argv (pre @ ''--secret'' # s # rest) (u, sec) = (u, Some s)"
proof (induction pre arbitrary: sec)
  case Nil
  have "scan_argv (''--secret'' # s # rest) (u, sec) = scan_argv (s # rest) (u, Some s)"
    by simp
  moreover have "scan_argv (s # rest) (u, Some s) = (u, Some s)"
    using Nil.prems(2,3) by (rule scan_argv_plain)
  ultimately show ?case
    by (simp only: append_Nil)
next
  case (Cons a pre)
  from Cons.prems have a: "a \<noteq> ''--upload''" and pre: "''--upload'' \<notin> set pre"
    by auto
  show ?case
  proof (cases pre)
    case Nil
    show ?thesis
      using Cons.IH[OF pre Cons.prems(2,3)]
      unfolding Nil by (simp only: append_Cons append_Nil scan_argv_skip[OF a])
  next
    case (Cons b pre')
    show ?thesis
      using Cons.IH[OF pre Cons.prems(2,3)]
      unfolding Cons by (simp only: append_Cons scan_argv_skip[OF a])
  qed
qed

text \<open>
  Claim C10. When \<open>--upload\<close> stands in the arguments with a value after it, the scan
  stops at the first such place (\<open>pre\<close> holds no \<open>--upload\<close>): the value is the URL; the
  argument after the URL is the secret when it does not begin with \<open>--\<close>; otherwise the
  secret is what the scan of the arguments before \<open>--upload\<close> has set, which is nothing
  when no \<open>--secret\<close> stands there. In no case does the result depend on what follows
  the argument after the URL, so a later \<open>--secret\<close> is ignored. Without any
  \<open>--upload\<close>, the last \<open>--secret\<close> that has a value sets the secret and the URL keeps
  its default.
\<close>

theorem parse_args_upload_stops_scan:
  "(''--upload'' \<notin> set pre \<longrightarrow>
      parse_args SERVER_URL (pre @ ''--upload'' # url # rest) =
        (Some url,
         (case rest of [] \<Rightarrow> snd (parse_args SERVER_URL (pre @ [''--upload'']))
          | r # rest' \<Rightarrow> if startswith r ''--'' then snd (parse_args SERVER_URL (pre @ [''--upload'']))
                        else Some r)))
   \<and> (''--upload'' \<notin> set pre \<and> ''--secret'' \<notin> set pre \<longrightarrow>
        snd (parse_args SERVER_URL (pre @ [''--upload''])) = None)
   \<and> (''--upload'' \<notin> set pre \<and> ''--upload'' \<notin> set (s # rest) \<and> ''--secret'' \<notin> set (s # rest) \<longrightarrow>
        parse_args SERVER_URL (pre @ ''--secret'' # s # rest) = (SERVER_URL, Some s))"
proof (intro conjI impI)
  assume "''--upload'' \<notin> set pre"
  then show "parse_args SERVER_URL (pre @ ''--upload'' # url # rest) =
        (Some url,
         (case rest of [] \<Rightarrow> snd (parse_args SERVER_URL (pre @ [''--upload'']))
          | r # rest' \<Rightarrow> if startswith r ''--'' then snd (parse_args SERVER_URL (pre @ [''--upload'']))
                        else Some r))"
    unfolding parse_args_def by (rule scan_argv_no_upload)
next
  assume a: "''--upload'' \<notin> set pre \<and> ''--secret'' \<notin> set pre"
  have "scan_argv (pre @ [''--upload'']) (SERVER_URL, None) = scan_argv [''--upload''] (SERVER_URL, None)"
    using a by (induction pre) auto
  then show "snd (parse_args SERVER_URL (pre @ [''--upload''])) = None"
    unfolding parse_args_def by simp
next
  assume "''--upload'' \<notin> set pre \<and> ''--upload'' \<notin> set (s # rest) \<and> ''--secret'' \<notin> set (s # rest)"
  then show "parse_args SERVER_URL (pre @ ''--secret'' # s # rest) = (SERVER_URL, Some s)"
    unfolding parse_args_def using scan_argv_secret_last[of pre s rest SERVER_URL None] by blast
qed

text \<open>
  Three command lines: a \<open>--secret\<close> after the URL is ignored and the secret stays unset;
  a plain argument after the URL replaces the secret given before; without \<open>--upload\<close>
  the secret is honoured.
\<close>

theorem parse_args_upload_stops_scan_witness:
  "parse_args None ([''watcher.py''] @ ''--upload'' # ''http://h'' # [''--secret'', ''s3'']) = (Some ''http://h'', None)
   \<and> parse_args None ([''watcher.py'', ''--secret'', ''s1''] @ ''--upload'' # ''http://h'' # [''s2'', ''--secret'', ''s3''])
        = (Some ''http://h'', Some ''s2'')
   \<and> parse_args None ([''watcher.py''] @ ''--secret'' # ''s1'' # [''-v'']) = (None, Some ''s1'')"
proof -
  have 1: "''--upload'' \<notin> set [''watcher.py'']" by simp
  have 2: "''--upload'' \<notin> set [''watcher.py''] \<and> ''--secret'' \<notin> set [''watcher.py'']" by simp
  have 3: "''--upload'' \<notin> set [''watcher.py'', ''--secret'', ''s1'']" by simp
  have 4: "''--upload'' \<notin> set [''watcher.py''] \<and> ''--upload'' \<notin> set (''s1'' # [''-v''])
      \<and> ''--secret'' \<notin> set (''s1'' # [''-v''])" by simp
  note t1 = parse_args_upload_stops_scan
    [of "[''watcher.py'']" None "''http://h''" "[''--secret'', ''s3'']" "''s1''"]
  note t2 = parse_args_upload_stops_scan
    [of "[''watcher.py'', ''--secret'', ''s1'']" None "''http://h''" "[''s2'', ''--secret'', ''s3'']" "''s1''"]
  note t3 = parse_args_upload_stops_scan
    [of "[''watcher.py'']" None "''http://h''" "[''-v'']" "''s1''"]
  have a: "parse_args None ([''watcher.py''] @ ''--upload'' # ''http://h'' # [''--secret'', ''s3''])
        = (Some ''http://h'', None)"
    using t1 1 2 by (simp add: startswith_def)
  have b: "parse_args None ([''watcher.py'', ''--secret'', ''s1''] @ ''--upload'' # ''http://h'' # [''s2'', ''--secret'', ''s3''])
        = (Some ''http://h'', Some ''s2'')"
    using t2 3 by (simp add: startswith_def)
  have c: "parse_args None ([''watcher.py''] @ ''--secret'' # ''s1'' # [''-v'']) = (None, Some ''s1'')"
    using t3 4 by blast
  from a b c show ?thesis by blast
qed

section \<open>Properties of the supervisor\<close>

text \<open>
  An instance that has been refused a restart is restarted by a later round: after five
  restarts at the clock values 0 to 4 the crash at 5 is not answered (the sixth round
  leaves the child exited), and the round at 61 starts the child again, because only
  three of the recorded restarts are then younger than 60 seconds.
\<close>

theorem abandoned_instance_restarted_later:
  "(case monitor (start init_watcher) (take 6 crash_rounds) of
      Inl e \<Rightarrow> None | Inr (restarts, w) \<Rightarrow> Some (restarts, process w))
     = Some ([True, True, True, True, True, False], Exited 1)
   \<and> (case monitor (start init_watcher) crash_rounds of
      Inl e \<Rightarrow> None | Inr (restarts, w) \<Rightarrow> Some (restarts, process w))
     = Some ([True, True, True, True, True, False, True], Running)"
  by (simp add: crash_rounds_def init_watcher_def start_def check_and_restart_def is_alive_def
      child_exits_def)

text \<open>
  Claim C8, as the code has it. A round that finds the child exited restarts it exactly
  when fewer than \<open>max_restarts\<close> of the recorded restarts are younger than
  \<open>restart_window\<close>; otherwise that round leaves it exited. Either way only the restarts
  inside the window stay recorded, so the refusal lasts no longer than the window: the
  same test decides every later round.
\<close>

theorem check_and_restart_window:
  assumes "process w = Exited c"
  shows "\<exists>w'. check_and_restart w now =
            Inr (length (filter (\<lambda>t. now - t < restart_window w) (restart_times w)) < max_restarts w, w')
          \<and> process w' = (if length (filter (\<lambda>t. now - t < restart_window w) (restart_times w)) < max_restarts w
                           then Running else Exited c)
          \<and> restart_times w' = filter (\<lambda>t. now - t < restart_window w) (restart_times w)
               @ (if length (filter (\<lambda>t. now - t < restart_window w) (restart_times w)) < max_restarts w
                  then [now] else [])
          \<and> max_restarts w' = max_restarts w \<and> restart_window w' = restart_window w"
  using assms by (simp add: check_and_restart_def is_alive_def start_def Let_def)

theorem check_and_restart_window_witness:
  "process (init_watcher\<lparr>process := Exited 1, restart_times := [0, 1, 2, 3, 4]\<rparr>) = Exited 1
   \<and> (\<exists>w'. check_and_restart (init_watcher\<lparr>process := Exited 1, restart_times := [0, 1, 2, 3, 4]\<rparr>) 5
              = Inr (False, w') \<and> process w' = Exited 1 \<and> restart_times w' = [0, 1, 2, 3, 4])
   \<and> (\<exists>w'. check_and_restart (init_watcher\<lparr>process := Exited 1, restart_times := [0, 1, 2, 3, 4]\<rparr>) 61
              = Inr (True, w') \<and> process w' = Running \<and> restart_times w' = [2, 3, 4, 61])"
proof -
  have p: "process (init_watcher\<lparr>process := Exited 1, restart_times := [0, 1, 2, 3, 4]\<rparr>) = Exited 1"
    by simp
  show ?thesis
    using check_and_restart_window [OF p, of 5] check_and_restart_window [OF p, of 61]
    by (simp add: init_watcher_def, blast)
qed

section \<open>Properties of the counting engine\<close>

subsection \<open>The walk as one list of lines\<close>

lemma scan_file_flat:
  "scan_file (on_line pn) acc file = scan_lines on_line acc (file_lines pn file)"
  by (cases "file") (simp_all add: scan_file_def scan_lines_def file_lines_def foldl_map)

lemma scan_lines_append:
  "scan_lines on_line acc (xs @ ys) = scan_lines on_line (scan_lines on_line acc xs) ys"
  by (simp add: scan_lines_def)

lemma scan_lines_Nil: "scan_lines on_line acc [] = acc"
  by (simp add: scan_lines_def)

lemma scan_lines_Cons:
  "scan_lines on_line acc ((pn, l) # ys) = scan_lines on_line (on_line pn acc l) ys"
  by (simp add: scan_lines_def)

lemma scan_files_flat:
  "foldl (scan_file (on_line pn)) acc fs = scan_lines on_line acc (concat (map (file_lines pn) fs))"
  by (induction fs arbitrary: acc) (simp_all add: scan_lines_Nil scan_lines_append scan_file_flat)

lemma scan_project_flat:
  "scan_project on_line D acc p = scan_lines on_line acc (project_lines D p)"
  by (simp add: scan_project_def project_lines_def scan_files_flat scan_lines_Nil)

lemma scan_projects_flat:
  "scan_projects on_line D acc dirs = scan_lines on_line acc (scanned_lines D dirs)"
  unfolding scan_projects_def scanned_lines_def
  by (induction dirs arbitrary: acc) (simp_all add: scan_lines_Nil scan_lines_append scan_project_flat)


lemma scan_lines_skip:
  assumes "\<And>a. on_line pn a l = a"
  shows "scan_lines on_line acc (xs @ (pn, l) # ys) = scan_lines on_line acc (xs @ ys)"
  by (simp add: scan_lines_append scan_lines_Cons assms)







subsection \<open>set_update\<close>

lemma set_set_update: "set (set_update s ks) = set s \<union> set ks"
  by (induction ks arbitrary: s) auto

lemma distinct_set_update: "distinct s \<Longrightarrow> distinct (set_update s ks)"
  by (induction ks arbitrary: s) auto

lemma foldl_set_update_steady:
  "set (foldl (\<lambda>mp (text, names). if names \<noteq> [] then set_update mp names else mp) s blocks)
     = set s \<union> (\<Union>block \<in> set blocks. set (snd block))
   \<and> (distinct s \<longrightarrow> distinct (foldl (\<lambda>mp (text, names). if names \<noteq> [] then set_update mp names else mp) s blocks))"
  by (induction blocks arbitrary: s) (auto simp: set_set_update distinct_set_update)

lemma foldl_set_update_backfill:
  "set (foldl (\<lambda>mp (text, names). set_update mp names) s blocks)
     = set s \<union> (\<Union>block \<in> set blocks. set (snd block))
   \<and> (distinct s \<longrightarrow> distinct (foldl (\<lambda>mp (text, names). set_update mp names) s blocks))"
  by (induction blocks arbitrary: s) (auto simp: set_set_update distinct_set_update)

lemma set_steady_message_patterns: "set (steady_message_patterns (text_blocks r)) = matched r"
  using foldl_set_update_steady[of "[]" "text_blocks r"]
  by (simp add: steady_message_patterns_def matched_def)

lemma distinct_steady_message_patterns: "distinct (steady_message_patterns bs)"
  using foldl_set_update_steady[of "[]" bs]
  by (simp add: steady_message_patterns_def)

lemma set_backfill_message_patterns: "set (backfill_message_patterns (text_blocks r)) = matched r"
  using foldl_set_update_backfill[of "[]" "text_blocks r"]
  by (simp add: backfill_message_patterns_def matched_def)

lemma distinct_backfill_message_patterns: "distinct (backfill_message_patterns bs)"
  using foldl_set_update_backfill[of "[]" bs]
  by (simp add: backfill_message_patterns_def)

subsection \<open>count_patterns: what it leaves alone\<close>

lemma count_patterns_Cons:
  "count_patterns pn d (p # rest) v =
     (case new_matches_by_pattern v p of
        None \<Rightarrow> v
      | Some n \<Rightarrow>
          (case pattern_counts v p of
             None \<Rightarrow> v\<lparr>new_matches_by_pattern := (new_matches_by_pattern v)(p \<mapsto> n + 1)\<rparr>
           | Some counts \<Rightarrow>
               count_patterns pn d rest
                 (v\<lparr>new_matches_by_pattern := (new_matches_by_pattern v)(p \<mapsto> n + 1),
                    pattern_counts := (pattern_counts v)(p \<mapsto> incr counts d),
                    project_counts := (if p = ''absolutely'' then incr (project_counts v) pn
                                       else project_counts v)\<rparr>)))"
  by (simp add: Let_def split: option.splits)

lemma count_patterns_rule:
  assumes "P v"
    and "\<And>v q n. P v \<Longrightarrow> new_matches_by_pattern v q = Some n \<Longrightarrow>
           P (v\<lparr>new_matches_by_pattern := (new_matches_by_pattern v)(q \<mapsto> n + 1)\<rparr>)"
    and "\<And>v q n c pc. P v \<Longrightarrow> new_matches_by_pattern v q = Some n \<Longrightarrow> pattern_counts v q = Some c \<Longrightarrow>
           P (v\<lparr>new_matches_by_pattern := (new_matches_by_pattern v)(q \<mapsto> n + 1),
                 pattern_counts := (pattern_counts v)(q \<mapsto> incr c d),
                 project_counts := pc\<rparr>)"
  shows "P (count_patterns pn d ps v)"
  using assms(1)
proof (induction ps arbitrary: v)
  case Nil
  then show ?case by simp
next
  case (Cons q ps)
  show ?case
  proof (cases "new_matches_by_pattern v q")
    case None
    then show ?thesis
      using Cons.prems by (simp add: count_patterns_Cons del: count_patterns.simps(2))
  next
    case (Some n)
    note n = Some
    show ?thesis
    proof (cases "pattern_counts v q")
      case None
      with n assms(2)[OF Cons.prems n] show ?thesis
        by (simp add: count_patterns_Cons del: count_patterns.simps(2))
    next
      case (Some c)
      have "P (count_patterns pn d ps
                 (v\<lparr>new_matches_by_pattern := (new_matches_by_pattern v)(q \<mapsto> n + 1),
                    pattern_counts := (pattern_counts v)(q \<mapsto> incr c d),
                    project_counts := (if q = ''absolutely'' then incr (project_counts v) pn
                                       else project_counts v)\<rparr>))"
        by (rule Cons.IH) (rule assms(3)[OF Cons.prems n Some])
      then show ?thesis
        using n Some by (simp only: count_patterns_Cons option.case)
    qed
  qed
qed

lemma count_patterns_frame:
  "processed_ids (count_patterns pn d ps v) = processed_ids v
   \<and> total_messages_counts (count_patterns pn d ps v) = total_messages_counts v
   \<and> new_total_messages (count_patterns pn d ps v) = new_total_messages v"
  by (rule count_patterns_rule) simp_all

lemma get0_incr: "get0 (incr c d) d' = (if d' = d then get0 c d + 1 else get0 c d')"
  by (simp add: incr_def get0_def)

lemma daily_update:
  "daily (v\<lparr>new_matches_by_pattern := nm, pattern_counts := (pattern_counts v)(q \<mapsto> incr c d),
            project_counts := pc\<rparr>) p d'
     = (if p = q then (if d' = d then get0 c d + 1 else get0 c d') else daily v p d')"
  by (simp add: daily_def get0_incr)

lemma daily_new_matches [simp]: "daily (v\<lparr>new_matches_by_pattern := nm\<rparr>) p d' = daily v p d'"
  by (simp add: daily_def)

lemma daily_lookup: "pattern_counts v p = Some c \<Longrightarrow> daily v p d' = get0 c d'"
  by (simp add: daily_def)

lemma count_patterns_daily_other:
  "d' \<noteq> d \<Longrightarrow> daily (count_patterns pn d ps v) p d' = daily v p d'"
  by (rule count_patterns_rule) (auto simp add: daily_def get0_incr)

lemma count_patterns_daily_mono:
  "daily v p d' \<le> daily (count_patterns pn d ps v) p d'"
  by (rule count_patterns_rule) (auto simp add: daily_def get0_incr)

subsection \<open>steady_line\<close>

lemma steady_line_None: "line_result D l = None \<Longrightarrow> steady_line D pn v l = v"
  by (auto simp: line_result_def steady_line_def split: option.splits)

lemma steady_line_known:
  "line_result D l = Some r \<Longrightarrow> msg_id r \<in> processed_ids v \<Longrightarrow> steady_line D pn v l = v"
  by (auto simp: line_result_def steady_line_def split: option.splits)

lemma steady_line_new:
  "line_result D l = Some r \<Longrightarrow> msg_id r \<notin> processed_ids v \<Longrightarrow>
   steady_line D pn v l =
     count_patterns pn (date_str r) (steady_message_patterns (text_blocks r))
       (v\<lparr>processed_ids := insert (msg_id r) (processed_ids v),
          total_messages_counts := incr (total_messages_counts v) (date_str r),
          new_total_messages := new_total_messages v + 1\<rparr>)"
  by (auto simp: line_result_def steady_line_def Let_def split: option.splits)


lemma steady_line_cases:
  obtains (skip) "steady_line D pn v l = v"
  | (new) r where "line_result D l = Some r" "msg_id r \<notin> processed_ids v"
      "steady_line D pn v l =
         count_patterns pn (date_str r) (steady_message_patterns (text_blocks r))
           (v\<lparr>processed_ids := insert (msg_id r) (processed_ids v),
              total_messages_counts := incr (total_messages_counts v) (date_str r),
              new_total_messages := new_total_messages v + 1\<rparr>)"
proof (cases "line_result D l")
  case None
  then show ?thesis using skip steady_line_None by blast
next
  case (Some r)
  then show ?thesis
    using skip new steady_line_known steady_line_new by (cases "msg_id r \<in> processed_ids v") blast+
qed

lemma daily_other_fields [simp]:
  "daily (v\<lparr>processed_ids := a, total_messages_counts := b, new_total_messages := c\<rparr>) p d = daily v p d"
  by (simp add: daily_def)

lemma steady_line_processed:
  "processed_ids (steady_line D pn v l) =
     (case line_result D l of None \<Rightarrow> processed_ids v | Some r \<Rightarrow> insert (msg_id r) (processed_ids v))"
proof (cases "line_result D l")
  case None
  then show ?thesis by (simp add: steady_line_None)
next
  case (Some r)
  then show ?thesis
    by (cases "msg_id r \<in> processed_ids v")
       (auto simp: steady_line_known steady_line_new count_patterns_frame)
qed

lemma steady_line_daily_mono: "daily v p d \<le> daily (steady_line D pn v l) p d"
proof (cases rule: steady_line_cases[of D pn v l])
  case skip
  then show ?thesis by simp
next
  case (new r)
  show ?thesis
    unfolding new(3)
    by (rule order_trans[OF _ count_patterns_daily_mono]) simp
qed

lemma steady_line_total_mono:
  "get0 (total_messages_counts v) d \<le> get0 (total_messages_counts (steady_line D pn v l)) d"
  by (cases rule: steady_line_cases[of D pn v l]) (auto simp: count_patterns_frame get0_incr)

lemma steady_line_today:
  assumes "\<And>r. line_result D l = Some r \<Longrightarrow> date_str r = t \<Longrightarrow> msg_id r \<in> processed_ids v"
  shows "daily (steady_line D pn v l) p t = daily v p t
       \<and> get0 (total_messages_counts (steady_line D pn v l)) t = get0 (total_messages_counts v) t"
proof (cases rule: steady_line_cases[of D pn v l])
  case skip
  then show ?thesis by simp
next
  case (new r)
  with assms have d: "t \<noteq> date_str r" by blast
  show ?thesis
    unfolding new(3) using d
    by (simp add: count_patterns_daily_other count_patterns_frame get0_incr)
qed

lemma today_known_iff:
  "today_known D P pls \<longleftrightarrow>
     (\<forall>(pn, l) \<in> set pls. \<forall>r. line_result D l = Some r \<longrightarrow> date_str r = today_utc D \<longrightarrow> msg_id r \<in> P)"
  by (auto simp: today_known_def list_all_iff split: option.splits)

lemma today_known_mono: "today_known D P pls \<Longrightarrow> P \<subseteq> Q \<Longrightarrow> today_known D Q pls"
  unfolding today_known_iff by fastforce

lemma steady_line_processed_mono: "processed_ids v \<subseteq> processed_ids (steady_line D pn v l)"
  by (auto simp: steady_line_processed split: option.splits)

lemma steady_scan_processed_mono: "processed_ids v \<subseteq> processed_ids (scan_lines (steady_line D) v pls)"
proof (induction pls arbitrary: v)
  case Nil
  then show ?case by (simp add: scan_lines_Nil)
next
  case (Cons x pls)
  obtain pn l where x: "x = (pn, l)" by (cases x)
  show ?case
    unfolding x scan_lines_Cons
    using Cons.IH[of "steady_line D pn v l"] steady_line_processed_mono[of v D pn l] by blast
qed

lemma steady_scan_today:
  assumes "today_known D (processed_ids v) pls"
  shows "daily (scan_lines (steady_line D) v pls) p (today_utc D) = daily v p (today_utc D)
       \<and> get0 (total_messages_counts (scan_lines (steady_line D) v pls)) (today_utc D)
           = get0 (total_messages_counts v) (today_utc D)"
  using assms
proof (induction pls arbitrary: v)
  case Nil
  then show ?case by (simp add: scan_lines_Nil)
next
  case (Cons x pls)
  obtain pn l where x: "x = (pn, l)" by (cases x)
  have here: "\<And>r. line_result D l = Some r \<Longrightarrow> date_str r = today_utc D \<Longrightarrow> msg_id r \<in> processed_ids v"
    using Cons.prems unfolding today_known_iff x by auto
  have "today_known D (processed_ids v) pls"
    using Cons.prems unfolding today_known_iff x by auto
  then have rest: "today_known D (processed_ids (steady_line D pn v l)) pls"
    using steady_line_processed_mono by (rule today_known_mono)
  show ?case
    unfolding x scan_lines_Cons
    using Cons.IH[OF rest] steady_line_today[of D l "today_utc D" v pn p, OF here]
    by simp
qed

lemma steady_scan_mono:
  "daily v p d \<le> daily (scan_lines (steady_line D) v pls) p d
   \<and> get0 (total_messages_counts v) d \<le> get0 (total_messages_counts (scan_lines (steady_line D) v pls)) d"
proof (induction pls arbitrary: v)
  case Nil
  then show ?case by (simp add: scan_lines_Nil)
next
  case (Cons x pls)
  obtain pn l where x: "x = (pn, l)" by (cases x)
  show ?case
    unfolding x scan_lines_Cons
    using Cons.IH[of "steady_line D pn v l"] steady_line_daily_mono[of v p d D pn l]
      steady_line_total_mono[of v d D pn l]
    by linarith
qed


subsection \<open>tally_patterns and backfill_line\<close>

lemma tally_patterns_Cons:
  "tally_patterns pn (p # rest) b =
     (case pattern_matches b p of
        None \<Rightarrow> b
      | Some n \<Rightarrow>
          tally_patterns pn rest
            (b\<lparr>pattern_matches := (pattern_matches b)(p \<mapsto> n + 1),
               bf_project_counts := (if p = ''absolutely'' then incr (bf_project_counts b) pn
                                     else bf_project_counts b)\<rparr>))"
  by (simp add: Let_def split: option.splits)

lemma tally_patterns_rule:
  assumes "P b"
    and "\<And>b q n pc. P b \<Longrightarrow> pattern_matches b q = Some n \<Longrightarrow>
           P (b\<lparr>pattern_matches := (pattern_matches b)(q \<mapsto> n + 1), bf_project_counts := pc\<rparr>)"
  shows "P (tally_patterns pn ps b)"
  using assms(1)
proof (induction ps arbitrary: b)
  case Nil
  then show ?case by simp
next
  case (Cons q ps)
  show ?case
  proof (cases "pattern_matches b q")
    case None
    then show ?thesis
      using Cons.prems by (simp add: tally_patterns_Cons del: tally_patterns.simps(2))
  next
    case (Some n)
    have "P (tally_patterns pn ps
               (b\<lparr>pattern_matches := (pattern_matches b)(q \<mapsto> n + 1),
                  bf_project_counts := (if q = ''absolutely'' then incr (bf_project_counts b) pn
                                        else bf_project_counts b)\<rparr>))"
      by (rule Cons.IH) (rule assms(2)[OF Cons.prems Some])
    then show ?thesis
      using Some by (simp only: tally_patterns_Cons option.case)
  qed
qed

lemma tally_patterns_frame:
  "seen_today (tally_patterns pn ps b) = seen_today b
   \<and> bf_processed_ids (tally_patterns pn ps b) = bf_processed_ids b"
  by (rule tally_patterns_rule) simp_all

lemma backfill_line_skip:
  "line_result D l = None \<Longrightarrow> backfill_line D pn b l = b"
  by (auto simp: line_result_def backfill_line_def split: option.splits)

lemma backfill_line_old:
  "line_result D l = Some r \<Longrightarrow> date_str r \<noteq> today_utc D \<or> msg_id r \<in> seen_today b \<Longrightarrow>
   backfill_line D pn b l = b"
  by (auto simp: line_result_def backfill_line_def split: option.splits)

lemma backfill_line_new:
  "line_result D l = Some r \<Longrightarrow> date_str r = today_utc D \<Longrightarrow> msg_id r \<notin> seen_today b \<Longrightarrow>
   backfill_line D pn b l =
     tally_patterns pn (backfill_message_patterns (text_blocks r))
       (b\<lparr>seen_today := insert (msg_id r) (seen_today b),
          bf_processed_ids := insert (msg_id r) (bf_processed_ids b)\<rparr>)"
  by (auto simp: line_result_def backfill_line_def Let_def split: option.splits)

lemma backfill_line_ids:
  "seen_today (backfill_line D pn b l) =
     (case line_result D l of None \<Rightarrow> seen_today b
      | Some r \<Rightarrow> if date_str r = today_utc D then insert (msg_id r) (seen_today b) else seen_today b)
   \<and> bf_processed_ids (backfill_line D pn b l) =
     (case line_result D l of None \<Rightarrow> bf_processed_ids b
      | Some r \<Rightarrow> if date_str r = today_utc D \<and> msg_id r \<notin> seen_today b
                  then insert (msg_id r) (bf_processed_ids b) else bf_processed_ids b)"
proof (cases "line_result D l")
  case None
  then show ?thesis by (simp add: backfill_line_skip)
next
  case (Some r)
  show ?thesis
  proof (cases "date_str r = today_utc D \<and> msg_id r \<notin> seen_today b")
    case True
    then show ?thesis using Some by (simp add: backfill_line_new tally_patterns_frame)
  next
    case False
    then have "backfill_line D pn b l = b" using Some backfill_line_old by blast
    then show ?thesis using Some False by auto
  qed
qed

lemma backfill_scan_ids:
  "seen_today b \<subseteq> bf_processed_ids b \<Longrightarrow>
   seen_today (scan_lines (backfill_line D) b pls) \<subseteq> bf_processed_ids (scan_lines (backfill_line D) b pls)
   \<and> bf_processed_ids b \<subseteq> bf_processed_ids (scan_lines (backfill_line D) b pls)
   \<and> today_known D (bf_processed_ids (scan_lines (backfill_line D) b pls)) pls"
proof (induction pls arbitrary: b)
  case Nil
  then show ?case by (simp add: scan_lines_Nil today_known_iff)
next
  case (Cons x pls)
  obtain pn l where x: "x = (pn, l)" by (cases x)
  let ?b = "backfill_line D pn b l"
  have inv: "seen_today ?b \<subseteq> bf_processed_ids ?b"
    using Cons.prems by (auto simp: backfill_line_ids split: option.splits if_splits)
  have grow: "bf_processed_ids b \<subseteq> bf_processed_ids ?b"
    by (auto simp: backfill_line_ids split: option.splits)
  have here: "\<And>r. line_result D l = Some r \<Longrightarrow> date_str r = today_utc D \<Longrightarrow> msg_id r \<in> bf_processed_ids ?b"
    using Cons.prems by (auto simp: backfill_line_ids split: option.splits)
  note IH = Cons.IH[OF inv]
  show ?case
    unfolding x scan_lines_Cons
    using IH grow here by (auto simp: today_known_iff)
qed


lemma dom_overwrite: "m q = Some x \<Longrightarrow> dom (\<lambda>a. if a = q then Some y else m a) = dom m"
  by (auto simp: dom_def)

lemma count_patterns_dom:
  "dom (pattern_counts (count_patterns pn d ps v)) = dom (pattern_counts v)
   \<and> dom (new_matches_by_pattern (count_patterns pn d ps v)) = dom (new_matches_by_pattern v)"
  by (rule count_patterns_rule) (simp_all add: dom_overwrite)

lemma count_patterns_exact:
  assumes "distinct ps" "set ps \<subseteq> dom (new_matches_by_pattern v)" "set ps \<subseteq> dom (pattern_counts v)"
  shows "daily (count_patterns pn d ps v) p d' = daily v p d' + (if p \<in> set ps \<and> d' = d then 1 else 0)
       \<and> get0 (project_counts (count_patterns pn d ps v)) name
           = get0 (project_counts v) name + (if ''absolutely'' \<in> set ps \<and> name = pn then 1 else 0)
       \<and> get0 (new_matches_by_pattern (count_patterns pn d ps v)) p
           = get0 (new_matches_by_pattern v) p + (if p \<in> set ps then 1 else 0)"
  using assms
proof (induction ps arbitrary: v)
  case Nil
  then show ?case by simp
next
  case (Cons q ps)
  from Cons.prems obtain n c where n: "new_matches_by_pattern v q = Some n"
    and c: "pattern_counts v q = Some c" by auto
  define v' where "v' = v\<lparr>new_matches_by_pattern := (new_matches_by_pattern v)(q \<mapsto> n + 1),
                pattern_counts := (pattern_counts v)(q \<mapsto> incr c d),
                project_counts := (if q = ''absolutely'' then incr (project_counts v) pn
                                   else project_counts v)\<rparr>"
  have unf: "count_patterns pn d (q # ps) v = count_patterns pn d ps v'"
    unfolding v'_def using n c by (simp only: count_patterns_Cons option.case)
  have d: "distinct ps" and q: "q \<notin> set ps" using Cons.prems(1) by auto
  have k1: "set ps \<subseteq> dom (new_matches_by_pattern v')" using Cons.prems(2) by (auto simp: v'_def)
  have k2: "set ps \<subseteq> dom (pattern_counts v')" using Cons.prems(3) by (auto simp: v'_def)
  note IH = Cons.IH[OF d k1 k2]
  have s1: "daily v' p d' = daily v p d' + (if p = q \<and> d' = d then 1 else 0)"
    unfolding v'_def using c by (simp add: daily_update daily_lookup)
  have s2: "get0 (project_counts v') name
      = get0 (project_counts v) name + (if q = ''absolutely'' \<and> name = pn then 1 else 0)"
    unfolding v'_def by (simp add: get0_incr)
  have s3: "get0 (new_matches_by_pattern v') p = get0 (new_matches_by_pattern v) p + (if p = q then 1 else 0)"
    unfolding v'_def using n by (simp add: get0_def)
  have i1: "daily (count_patterns pn d ps v') p d' = daily v' p d' + (if p \<in> set ps \<and> d' = d then 1 else 0)"
    using IH by blast
  have i2: "get0 (project_counts (count_patterns pn d ps v')) name
           = get0 (project_counts v') name + (if ''absolutely'' \<in> set ps \<and> name = pn then 1 else 0)"
    using IH by blast
  have i3: "get0 (new_matches_by_pattern (count_patterns pn d ps v')) p
           = get0 (new_matches_by_pattern v') p + (if p \<in> set ps then 1 else 0)"
    using IH by blast
  have a: "daily (count_patterns pn d (q # ps) v) p d' = daily v p d' + (if p \<in> set (q # ps) \<and> d' = d then 1 else 0)"
    unfolding unf i1 s1 using q by auto
  have b: "get0 (project_counts (count_patterns pn d (q # ps) v)) name
           = get0 (project_counts v) name + (if ''absolutely'' \<in> set (q # ps) \<and> name = pn then 1 else 0)"
    unfolding unf i2 s2 using q by auto
  have e: "get0 (new_matches_by_pattern (count_patterns pn d (q # ps) v)) p
           = get0 (new_matches_by_pattern v) p + (if p \<in> set (q # ps) then 1 else 0)"
    unfolding unf i3 s3 using q by auto
  from a b e show ?case by blast
qed

lemma keys_ok_dom:
  "keys_ok D v \<longleftrightarrow> set (PATTERNS D) \<subseteq> dom (pattern_counts v) \<and> set (PATTERNS D) \<subseteq> dom (new_matches_by_pattern v)"
  by (auto simp: keys_ok_def list_all_iff)


lemma steady_line_exact:
  assumes r: "line_result D l = Some r" and new: "msg_id r \<notin> processed_ids v"
    and names: "matched r \<subseteq> set (PATTERNS D)" and keys: "keys_ok D v"
  shows "daily (steady_line D pn v l) p d = daily v p d + (if p \<in> matched r \<and> d = date_str r then 1 else 0)"
    and "get0 (project_counts (steady_line D pn v l)) name
           = get0 (project_counts v) name + (if ''absolutely'' \<in> matched r \<and> name = pn then 1 else 0)"
    and "get0 (new_matches_by_pattern (steady_line D pn v l)) p
           = get0 (new_matches_by_pattern v) p + (if p \<in> matched r then 1 else 0)"
    and "get0 (total_messages_counts (steady_line D pn v l)) d
           = get0 (total_messages_counts v) d + (if d = date_str r then 1 else 0)"
    and "new_total_messages (steady_line D pn v l) = new_total_messages v + 1"
    and "processed_ids (steady_line D pn v l) = insert (msg_id r) (processed_ids v)"
proof -
  let ?v2 = "v\<lparr>processed_ids := insert (msg_id r) (processed_ids v),
          total_messages_counts := incr (total_messages_counts v) (date_str r),
          new_total_messages := new_total_messages v + 1\<rparr>"
  let ?ps = "steady_message_patterns (text_blocks r)"
  have unf: "steady_line D pn v l = count_patterns pn (date_str r) ?ps ?v2"
    using r new by (rule steady_line_new)
  have k1: "set ?ps \<subseteq> dom (new_matches_by_pattern ?v2)"
    using names keys by (auto simp: set_steady_message_patterns keys_ok_dom)
  have k2: "set ?ps \<subseteq> dom (pattern_counts ?v2)"
    using names keys by (auto simp: set_steady_message_patterns keys_ok_dom)
  note ex = count_patterns_exact[OF distinct_steady_message_patterns k1 k2, unfolded set_steady_message_patterns]
  show "daily (steady_line D pn v l) p d = daily v p d + (if p \<in> matched r \<and> d = date_str r then 1 else 0)"
    unfolding unf using ex[of pn "date_str r" p d] by simp
  show "get0 (project_counts (steady_line D pn v l)) name
           = get0 (project_counts v) name + (if ''absolutely'' \<in> matched r \<and> name = pn then 1 else 0)"
    unfolding unf using ex[of pn "date_str r" p d name] by simp
  show "get0 (new_matches_by_pattern (steady_line D pn v l)) p
           = get0 (new_matches_by_pattern v) p + (if p \<in> matched r then 1 else 0)"
    unfolding unf using ex[of pn "date_str r" p d] by simp
  show "get0 (total_messages_counts (steady_line D pn v l)) d
           = get0 (total_messages_counts v) d + (if d = date_str r then 1 else 0)"
    unfolding unf by (simp add: count_patterns_frame get0_incr)
  show "new_total_messages (steady_line D pn v l) = new_total_messages v + 1"
    unfolding unf by (simp add: count_patterns_frame)
  show "processed_ids (steady_line D pn v l) = insert (msg_id r) (processed_ids v)"
    unfolding unf by (simp add: count_patterns_frame)
qed



lemma counted_Cons_skip:
  "line_result D l = None \<or> (\<exists>r. line_result D l = Some r \<and> msg_id r \<in> P) \<Longrightarrow>
   counted D P ((pn, l) # pls) = counted D P pls"
  by (auto split: option.splits)

lemma counted_Cons_new:
  "line_result D l = Some r \<Longrightarrow> msg_id r \<notin> P \<Longrightarrow>
   counted D P ((pn, l) # pls) = (pn, r) # counted D (insert (msg_id r) P) pls"
  by simp





lemma steady_scan_totals:
  "get0 (total_messages_counts (scan_lines (steady_line D) v pls)) d
     = get0 (total_messages_counts v) d
       + int (length (filter (\<lambda>x. date_str (snd x) = d) (counted D (processed_ids v) pls)))
   \<and> new_total_messages (scan_lines (steady_line D) v pls)
     = new_total_messages v + int (length (counted D (processed_ids v) pls))
   \<and> processed_ids (scan_lines (steady_line D) v pls)
     = processed_ids v \<union> (msg_id \<circ> snd) ` set (counted D (processed_ids v) pls)
   \<and> (counted D (processed_ids v) pls = [] \<longrightarrow> scan_lines (steady_line D) v pls = v)"
proof (induction pls arbitrary: v)
  case Nil
  then show ?case by (simp add: scan_lines_Nil)
next
  case (Cons y pls)
  obtain pn l where y: "y = (pn, l)" by (cases y)
  show ?case
  proof (cases "line_result D l = None \<or> (\<exists>r. line_result D l = Some r \<and> msg_id r \<in> processed_ids v)")
    case True
    then have s: "steady_line D pn v l = v"
      using steady_line_None steady_line_known by blast
    have c: "counted D (processed_ids v) (y # pls) = counted D (processed_ids v) pls"
      unfolding y using True by (rule counted_Cons_skip)
    show ?thesis
      unfolding c unfolding y scan_lines_Cons s
      by (rule Cons.IH)
  next
    case False
    then obtain r where r: "line_result D l = Some r" and new: "msg_id r \<notin> processed_ids v"
      by auto
    define v1 where "v1 = steady_line D pn v l"
    have unf: "v1 = count_patterns pn (date_str r) (steady_message_patterns (text_blocks r))
           (v\<lparr>processed_ids := insert (msg_id r) (processed_ids v),
              total_messages_counts := incr (total_messages_counts v) (date_str r),
              new_total_messages := new_total_messages v + 1\<rparr>)"
      unfolding v1_def using r new by (rule steady_line_new)
    have p1: "processed_ids v1 = insert (msg_id r) (processed_ids v)"
      and t1: "get0 (total_messages_counts v1) d = get0 (total_messages_counts v) d + (if d = date_str r then 1 else 0)"
      and n1: "new_total_messages v1 = new_total_messages v + 1"
      unfolding unf by (simp_all add: count_patterns_frame get0_incr)
    have c: "counted D (processed_ids v) (y # pls) = (pn, r) # counted D (processed_ids v1) pls"
      unfolding y p1 using r new by (rule counted_Cons_new)
    note IH = Cons.IH[of v1]
    show ?thesis
      unfolding c unfolding y scan_lines_Cons v1_def[symmetric]
      using IH t1 n1 p1 by auto
  qed
qed


subsection \<open>Backfill: exact counts\<close>

lemma tally_patterns_dom:
  "dom (pattern_matches (tally_patterns pn ps b)) = dom (pattern_matches b)"
  by (rule tally_patterns_rule) (simp_all add: dom_overwrite)

lemma tally_patterns_exact:
  assumes "distinct ps" "set ps \<subseteq> dom (pattern_matches b)"
  shows "get0 (pattern_matches (tally_patterns pn ps b)) p
           = get0 (pattern_matches b) p + (if p \<in> set ps then 1 else 0)
       \<and> get0 (bf_project_counts (tally_patterns pn ps b)) name
           = get0 (bf_project_counts b) name + (if ''absolutely'' \<in> set ps \<and> name = pn then 1 else 0)"
  using assms
proof (induction ps arbitrary: b)
  case Nil
  then show ?case by simp
next
  case (Cons q ps)
  from Cons.prems obtain n where n: "pattern_matches b q = Some n" by auto
  define b' where "b' = b\<lparr>pattern_matches := (pattern_matches b)(q \<mapsto> n + 1),
               bf_project_counts := (if q = ''absolutely'' then incr (bf_project_counts b) pn
                                     else bf_project_counts b)\<rparr>"
  have unf: "tally_patterns pn (q # ps) b = tally_patterns pn ps b'"
    unfolding b'_def using n by (simp only: tally_patterns_Cons option.case)
  have d: "distinct ps" and q: "q \<notin> set ps" using Cons.prems(1) by auto
  have k: "set ps \<subseteq> dom (pattern_matches b')" using Cons.prems(2) by (auto simp: b'_def)
  note IH = Cons.IH[OF d k]
  have s1: "get0 (pattern_matches b') p = get0 (pattern_matches b) p + (if p = q then 1 else 0)"
    unfolding b'_def using n by (simp add: get0_def)
  have s2: "get0 (bf_project_counts b') name
      = get0 (bf_project_counts b) name + (if q = ''absolutely'' \<and> name = pn then 1 else 0)"
    unfolding b'_def by (simp add: get0_incr)
  have i1: "get0 (pattern_matches (tally_patterns pn ps b')) p
           = get0 (pattern_matches b') p + (if p \<in> set ps then 1 else 0)"
    using IH by blast
  have i2: "get0 (bf_project_counts (tally_patterns pn ps b')) name
           = get0 (bf_project_counts b') name + (if ''absolutely'' \<in> set ps \<and> name = pn then 1 else 0)"
    using IH by blast
  have a: "get0 (pattern_matches (tally_patterns pn (q # ps) b)) p
           = get0 (pattern_matches b) p + (if p \<in> set (q # ps) then 1 else 0)"
    unfolding unf i1 s1 using q by auto
  have c: "get0 (bf_project_counts (tally_patterns pn (q # ps) b)) name
           = get0 (bf_project_counts b) name + (if ''absolutely'' \<in> set (q # ps) \<and> name = pn then 1 else 0)"
    unfolding unf i2 s2 using q by auto
  from a c show ?case by blast
qed

lemma backfill_line_dom: "dom (pattern_matches (backfill_line D pn b l)) = dom (pattern_matches b)"
proof (cases "line_result D l")
  case None
  then show ?thesis by (simp add: backfill_line_skip)
next
  case (Some r)
  show ?thesis
  proof (cases "date_str r = today_utc D \<and> msg_id r \<notin> seen_today b")
    case True
    then show ?thesis using Some by (simp add: backfill_line_new tally_patterns_dom)
  next
    case False
    then have "backfill_line D pn b l = b" using Some backfill_line_old by blast
    then show ?thesis by simp
  qed
qed

lemma backfill_line_exact:
  assumes r: "line_result D l = Some r" and today: "date_str r = today_utc D"
    and new: "msg_id r \<notin> seen_today b"
    and names: "matched r \<subseteq> set (PATTERNS D)" and keys: "set (PATTERNS D) \<subseteq> dom (pattern_matches b)"
  shows "get0 (pattern_matches (backfill_line D pn b l)) p
           = get0 (pattern_matches b) p + (if p \<in> matched r then 1 else 0)"
    and "get0 (bf_project_counts (backfill_line D pn b l)) name
           = get0 (bf_project_counts b) name + (if ''absolutely'' \<in> matched r \<and> name = pn then 1 else 0)"
    and "seen_today (backfill_line D pn b l) = insert (msg_id r) (seen_today b)"
    and "bf_processed_ids (backfill_line D pn b l) = insert (msg_id r) (bf_processed_ids b)"
proof -
  let ?b1 = "b\<lparr>seen_today := insert (msg_id r) (seen_today b),
          bf_processed_ids := insert (msg_id r) (bf_processed_ids b)\<rparr>"
  let ?ps = "backfill_message_patterns (text_blocks r)"
  have unf: "backfill_line D pn b l = tally_patterns pn ?ps ?b1"
    using r today new by (rule backfill_line_new)
  have k: "set ?ps \<subseteq> dom (pattern_matches ?b1)"
    using names keys by (auto simp: set_backfill_message_patterns)
  note ex = tally_patterns_exact[OF distinct_backfill_message_patterns k, unfolded set_backfill_message_patterns]
  show "get0 (pattern_matches (backfill_line D pn b l)) p
           = get0 (pattern_matches b) p + (if p \<in> matched r then 1 else 0)"
    unfolding unf using ex[of pn p name] by simp
  show "get0 (bf_project_counts (backfill_line D pn b l)) name
           = get0 (bf_project_counts b) name + (if ''absolutely'' \<in> matched r \<and> name = pn then 1 else 0)"
    unfolding unf using ex[of pn p name] by simp
  show "seen_today (backfill_line D pn b l) = insert (msg_id r) (seen_today b)"
    unfolding unf by (simp add: tally_patterns_frame)
  show "bf_processed_ids (backfill_line D pn b l) = insert (msg_id r) (bf_processed_ids b)"
    unfolding unf by (simp add: tally_patterns_frame)
qed







lemma backfill_scan_dom:
  "dom (pattern_matches (scan_lines (backfill_line D) b pls)) = dom (pattern_matches b)"
proof (induction pls arbitrary: b)
  case Nil
  then show ?case by (simp add: scan_lines_Nil)
next
  case (Cons y pls)
  obtain pn l where y: "y = (pn, l)" by (cases y)
  show ?case unfolding y scan_lines_Cons by (simp add: Cons.IH backfill_line_dom)
qed


subsection \<open>store_backfill\<close>

lemma store_backfill_skip:
  "\<not> (\<exists>n c. m p = Some n \<and> 0 < n \<and> pattern_counts v p = Some c) \<Longrightarrow>
   store_backfill D m (p # rest) (v, w) = store_backfill D m rest (v, w)"
  by (auto split: option.splits)

lemma store_backfill_set:
  "m p = Some n \<Longrightarrow> 0 < n \<Longrightarrow> pattern_counts v p = Some c \<Longrightarrow>
   store_backfill D m (p # rest) (v, w) =
     store_backfill D m rest
       (v\<lparr>pattern_counts := (pattern_counts v)(p \<mapsto> c(today_utc D \<mapsto> n))\<rparr>,
        emit (Printed (FoundMatches p n)) (save_pattern_counts p (c(today_utc D \<mapsto> n)) w))"
  by (simp add: Let_def)

lemma store_backfill_rule:
  assumes "P v w"
    and step: "\<And>v w p n c. P v w \<Longrightarrow> m p = Some n \<Longrightarrow> 0 < n \<Longrightarrow> pattern_counts v p = Some c \<Longrightarrow>
           P (v\<lparr>pattern_counts := (pattern_counts v)(p \<mapsto> c(today_utc D \<mapsto> n))\<rparr>)
             (emit (Printed (FoundMatches p n)) (save_pattern_counts p (c(today_utc D \<mapsto> n)) w))"
  shows "case store_backfill D m ps (v, w) of (v', w') \<Rightarrow> P v' w'"
  using assms(1)
proof (induction ps arbitrary: v w)
  case Nil
  then show ?case by simp
next
  case (Cons p ps)
  show ?case
  proof (cases "\<exists>n c. m p = Some n \<and> 0 < n \<and> pattern_counts v p = Some c")
    case False
    then have "store_backfill D m (p # ps) (v, w) = store_backfill D m ps (v, w)"
      by (rule store_backfill_skip)
    then show ?thesis using Cons.IH[OF Cons.prems] by (simp only:)
  next
    case True
    then obtain n c where n: "m p = Some n" "0 < n" "pattern_counts v p = Some c" by auto
    have P1: "P (v\<lparr>pattern_counts := (pattern_counts v)(p \<mapsto> c(today_utc D \<mapsto> n))\<rparr>)
             (emit (Printed (FoundMatches p n)) (save_pattern_counts p (c(today_utc D \<mapsto> n)) w))"
      using Cons.prems n by (rule step)
    show ?thesis
      using Cons.IH[OF P1] by (simp only: store_backfill_set[of m p n v c D ps w, OF n])
  qed
qed

lemma files_emit [simp]: "files (emit e w) = files w"
  by (simp add: emit_def)

lemma trace_emit [simp]: "trace (emit e w) = trace w @ [e]"
  by (simp add: emit_def)

lemma files_save_pattern [simp]:
  "files (save_pattern_counts p c w) = (files w)\<lparr>pattern_counts_files := (pattern_counts_files (files w))(p \<mapsto> c)\<rparr>"
  by (simp add: save_pattern_counts_def)

lemma files_save_total [simp]:
  "files (save_total_messages_counts c w) = (files w)\<lparr>total_messages_file := Some c\<rparr>"
  by (simp add: save_total_messages_counts_def)

lemma files_save_processed [simp]:
  "files (save_processed_ids c w) = (files w)\<lparr>processed_ids_file := Some c\<rparr>"
  by (simp add: save_processed_ids_def)

lemma files_save_project [simp]:
  "files (save_project_counts c w) = (files w)\<lparr>project_counts_file := Some c\<rparr>"
  by (simp add: save_project_counts_def)

lemma trace_saves [simp]:
  "trace (save_pattern_counts p c w) = trace w @ [Wrote (PatternCountsFile p)]"
  "trace (save_total_messages_counts c' w) = trace w @ [Wrote TotalMessagesFile]"
  "trace (save_processed_ids ids w) = trace w @ [Wrote ProcessedIdsFile]"
  "trace (save_project_counts c' w) = trace w @ [Wrote ProjectCountsFile]"
  by (simp_all add: save_pattern_counts_def save_total_messages_counts_def save_processed_ids_def
      save_project_counts_def)

lemma store_backfill_frame:
  "case store_backfill D m ps (v, w) of (v', w') \<Rightarrow>
     processed_ids v' = processed_ids v \<and> project_counts v' = project_counts v
     \<and> total_messages_counts v' = total_messages_counts v
     \<and> new_matches_by_pattern v' = new_matches_by_pattern v
     \<and> new_total_messages v' = new_total_messages v
     \<and> dom (pattern_counts v') = dom (pattern_counts v)
     \<and> processed_ids_file (files w') = processed_ids_file (files w)
     \<and> project_counts_file (files w') = project_counts_file (files w)
     \<and> total_messages_file (files w') = total_messages_file (files w)"
  by (rule store_backfill_rule) (auto simp add: insert_absorb domI)

lemma store_backfill_daily_other:
  "d \<noteq> today_utc D \<Longrightarrow>
   (case store_backfill D m ps (v, w) of (v', w') \<Rightarrow> daily v' p d = daily v p d)"
  by (rule store_backfill_rule) (auto simp: daily_def get0_def)

lemma store_backfill_synced:
  assumes "\<forall>name \<in> S. pattern_counts v name = Some (load_pattern_counts (files w) name)"
  shows "case store_backfill D m ps (v, w) of (v', w') \<Rightarrow>
      (\<forall>name \<in> S. pattern_counts v' name = Some (load_pattern_counts (files w') name))"
  by (rule store_backfill_rule) (use assms in \<open>auto simp: load_pattern_counts_def\<close>)

lemma store_backfill_today:
  assumes "m p = Some n" "pattern_counts v p = Some c"
  shows "daily (fst (store_backfill D m ps (v, w))) p (today_utc D)
           = (if p \<in> set ps \<and> 0 < n then n else daily v p (today_utc D))"
  using assms(2)
proof (induction ps arbitrary: v w c)
  case Nil
  then show ?case by simp
next
  case (Cons q ps)
  show ?case
  proof (cases "\<exists>n c. m q = Some n \<and> 0 < n \<and> pattern_counts v q = Some c")
    case False
    then have s: "store_backfill D m (q # ps) (v, w) = store_backfill D m ps (v, w)"
      by (rule store_backfill_skip)
    have "q = p \<Longrightarrow> \<not> 0 < n" using False assms(1) Cons.prems by auto
    then show ?thesis unfolding s using Cons.IH[OF Cons.prems] by auto
  next
    case True
    then obtain k e where k: "m q = Some k" "0 < k" "pattern_counts v q = Some e" by auto
    let ?v = "v\<lparr>pattern_counts := (pattern_counts v)(q \<mapsto> e(today_utc D \<mapsto> k))\<rparr>"
    note st = store_backfill_set[of m q k v e D ps w, OF k]
    show ?thesis
    proof (cases "q = p")
      case True
      with k assms(1) Cons.prems have kn: "k = n" "e = c" by auto
      have pc: "pattern_counts ?v p = Some (c(today_utc D \<mapsto> n))" using True kn by simp
      have "daily ?v p (today_utc D) = n" using pc by (simp add: daily_def get0_def)
      then show ?thesis
        unfolding st using Cons.IH[OF pc] True kn k by auto
    next
      case False
      have pc: "pattern_counts ?v p = Some c" using False Cons.prems by simp
      have "daily ?v p (today_utc D) = daily v p (today_utc D)"
        using pc Cons.prems by (simp add: daily_def)
      then show ?thesis
        unfolding st using Cons.IH[OF pc] False by auto
    qed
  qed
qed

lemma store_backfill_idle:
  "\<forall>p \<in> set ps. \<forall>n. m p = Some n \<longrightarrow> n \<le> 0 \<Longrightarrow> store_backfill D m ps (v, w) = (v, w)"
  by (induction ps) (auto split: option.splits)


subsection \<open>save_all\<close>

lemma save_patterns_files:
  "files (foldl (\<lambda>w' name. case pattern_counts v name of None \<Rightarrow> w'
                             | Some counts \<Rightarrow> save_pattern_counts name counts w') w ps)
     = (files w)\<lparr>pattern_counts_files :=
          (\<lambda>name. if name \<in> set ps \<and> pattern_counts v name \<noteq> None then pattern_counts v name
                   else pattern_counts_files (files w) name)\<rparr>"
proof (induction ps rule: rev_induct)
  case Nil
  then show ?case by simp
next
  case (snoc p ps)
  show ?case
    by (cases "pattern_counts v p") (auto simp: snoc.IH fun_eq_iff)
qed

lemma save_patterns_trace:
  "trace (foldl (\<lambda>w' name. case pattern_counts v name of None \<Rightarrow> w'
                             | Some counts \<Rightarrow> save_pattern_counts name counts w') w ps)
     = trace w @ map (\<lambda>name. Wrote (PatternCountsFile name)) (filter (\<lambda>name. pattern_counts v name \<noteq> None) ps)"
proof (induction ps rule: rev_induct)
  case Nil
  then show ?case by simp
next
  case (snoc p ps)
  show ?case
    by (cases "pattern_counts v p") (auto simp: snoc.IH)
qed

lemma save_all_files:
  "processed_ids_file (files (save_all D v w)) = Some (processed_ids v)"
  "project_counts_file (files (save_all D v w)) = Some (project_counts v)"
  "total_messages_file (files (save_all D v w)) = Some (total_messages_counts v)"
  "pattern_counts_files (files (save_all D v w)) name =
     (if name \<in> set (PATTERNS D) \<and> pattern_counts v name \<noteq> None then pattern_counts v name
      else pattern_counts_files (files w) name)"
  by (auto simp add: save_all_def Let_def save_patterns_files)

lemma save_all_trace:
  "trace (save_all D v w) =
     trace w @ [Wrote ProjectCountsFile, Wrote ProcessedIdsFile]
       @ map (\<lambda>name. Wrote (PatternCountsFile name)) (filter (\<lambda>name. pattern_counts v name \<noteq> None) (PATTERNS D))
       @ [Wrote TotalMessagesFile]"
  by (simp add: save_all_def Let_def save_patterns_trace)

lemma save_all_synced: "set (PATTERNS D) \<subseteq> dom (pattern_counts v) \<Longrightarrow> synced D v (save_all D v w)"
  by (auto simp: synced_def save_all_files load_processed_ids_def load_project_counts_def
      load_total_messages_counts_def load_pattern_counts_def)

subsection \<open>One pass\<close>

lemma scan_pass_flat:
  "scan_pass D dirs v =
     scan_lines (steady_line D)
       (v\<lparr>new_matches_by_pattern := zero_tally (PATTERNS D), new_total_messages := 0\<rparr>)
       (scanned_lines D dirs)"
  by (simp add: scan_pass_def scan_projects_flat)

lemma steady_pass_vars: "fst (steady_pass D api_url (v, w) (dirs, ok)) = scan_pass D dirs v"
  by (simp add: steady_pass_def Let_def)

lemma steady_pass_files:
  "files (snd (steady_pass D api_url (v, w) (dirs, ok))) =
     (if new_activity D (scan_pass D dirs v) then files (save_all D (scan_pass D dirs v) w) else files w)"
  by (simp add: steady_pass_def Let_def)

lemma steady_scan_dom:
  "dom (pattern_counts (scan_lines (steady_line D) v pls)) = dom (pattern_counts v)"
proof (induction pls arbitrary: v)
  case Nil
  then show ?case by (simp add: scan_lines_Nil)
next
  case (Cons y pls)
  obtain pn l where y: "y = (pn, l)" by (cases y)
  have "dom (pattern_counts (steady_line D pn v l)) = dom (pattern_counts v)"
    by (cases rule: steady_line_cases[of D pn v l]) (simp_all add: count_patterns_dom)
  then show ?case unfolding y scan_lines_Cons by (simp add: Cons.IH)
qed

lemma scan_pass_dom: "dom (pattern_counts (scan_pass D dirs v)) = dom (pattern_counts v)"
  by (simp add: scan_pass_flat steady_scan_dom)

lemma scan_pass_idle:
  assumes "\<not> new_activity D (scan_pass D dirs v)"
  shows "scan_pass D dirs v = v\<lparr>new_matches_by_pattern := zero_tally (PATTERNS D), new_total_messages := 0\<rparr>"
proof -
  let ?v0 = "v\<lparr>new_matches_by_pattern := zero_tally (PATTERNS D), new_total_messages := 0\<rparr>"
  let ?cs = "counted D (processed_ids ?v0) (scanned_lines D dirs)"
  from assms have "new_total_messages (scan_pass D dirs v) \<le> 0"
    by (simp add: new_activity_def)
  moreover have "new_total_messages (scan_pass D dirs v) = int (length ?cs)"
    using steady_scan_totals[of D ?v0 "scanned_lines D dirs"] by (simp add: scan_pass_flat)
  ultimately have "?cs = []" by simp
  then show ?thesis
    using steady_scan_totals[of D ?v0 "scanned_lines D dirs"] by (simp add: scan_pass_flat)
qed

lemma synced_tallies [simp]:
  "synced D (v\<lparr>new_matches_by_pattern := a, new_total_messages := b\<rparr>) w = synced D v w"
  by (simp add: synced_def)

lemma synced_files_cong: "files w = files w' \<Longrightarrow> synced D v w = synced D v w'"
  by (simp add: synced_def)

lemma steady_pass_ready:
  assumes "ready D s"
  shows "ready D (steady_pass D api_url s r)"
proof -
  obtain v w where s: "s = (v, w)" by (cases s)
  obtain dirs ok where r: "r = (dirs, ok)" by (cases r)
  let ?v1 = "scan_pass D dirs v"
  from assms have sy: "synced D v w" and k: "set (PATTERNS D) \<subseteq> dom (pattern_counts v)"
    by (simp_all add: ready_def s)
  have k1: "set (PATTERNS D) \<subseteq> dom (pattern_counts ?v1)" using k by (simp add: scan_pass_dom)
  have "synced D ?v1 (snd (steady_pass D api_url (v, w) (dirs, ok)))"
  proof (cases "new_activity D ?v1")
    case True
    have "files (snd (steady_pass D api_url (v, w) (dirs, ok))) = files (save_all D ?v1 w)"
      using True by (simp add: steady_pass_files)
    then show ?thesis using save_all_synced[OF k1] synced_files_cong by blast
  next
    case False
    have f: "files (snd (steady_pass D api_url (v, w) (dirs, ok))) = files w"
      using False by (simp add: steady_pass_files)
    show ?thesis
      using sy synced_files_cong[OF f] by (simp add: scan_pass_idle[OF False])
  qed
  then show ?thesis using k1 by (simp add: ready_def s r steady_pass_vars)
qed


subsection \<open>startup\<close>

lemma startup_unfold:
  "startup D api_url upload_ok base d =
     finish_startup D api_url upload_ok
       (store_backfill D
          (pattern_matches (backfill_today_patterns D base (load_processed_ids d) Map.empty))
          (PATTERNS D) (loaded D base d, announced D base d))"
  by (simp add: startup_def finish_startup_def loaded_def announced_def Let_def split: prod.splits)

lemma finish_startup_fst: "fst (finish_startup D api_url ok s) = fst s"
  by (cases s) (simp add: finish_startup_def Let_def)

lemma finish_startup_files:
  "files (snd (finish_startup D api_url ok s)) =
     (files (snd s))\<lparr>processed_ids_file := Some (processed_ids (fst s)),
                     project_counts_file := Some (project_counts (fst s))\<rparr>"
  by (cases s) (simp add: finish_startup_def Let_def)

lemma files_announced:
  "files (announced D base d) =
     d\<lparr>total_messages_file :=
         Some ((load_total_messages_counts d)(today_utc D \<mapsto> backfill_today_total_messages D base))\<rparr>"
  by (simp add: announced_def Let_def)


lemma zero_tally_dom: "dom (zero_tally names) = set names"
  by (auto simp: zero_tally_def dom_def)

lemma backfill_matches_dom:
  "dom (pattern_matches (backfill_today_patterns D base ids counts)) = set (PATTERNS D)"
  by (cases base)
     (simp_all add: backfill_today_patterns_def Let_def scan_projects_flat backfill_scan_dom zero_tally_dom)

lemma backfill_today_known:
  "today_known D (bf_processed_ids (backfill_today_patterns D (Some dirs) ids counts)) (scanned_lines D dirs)"
  using backfill_scan_ids[of "\<lparr>pattern_matches = zero_tally (PATTERNS D), seen_today = {},
               bf_processed_ids = ids, bf_project_counts = counts\<rparr>" D "scanned_lines D dirs"]
  by (simp add: backfill_today_patterns_def Let_def scan_projects_flat)

lemma startup_frame:
  "processed_ids (fst (startup D api_url ok base d))
     = bf_processed_ids (backfill_today_patterns D base (load_processed_ids d) Map.empty)"
  "project_counts (fst (startup D api_url ok base d))
     = bf_project_counts (backfill_today_patterns D base (load_processed_ids d) Map.empty)"
  "total_messages_counts (fst (startup D api_url ok base d))
     = (load_total_messages_counts d)(today_utc D \<mapsto> backfill_today_total_messages D base)"
  "dom (pattern_counts (fst (startup D api_url ok base d))) = set (PATTERNS D)"
  using store_backfill_frame[where D=D
      and m="pattern_matches (backfill_today_patterns D base (load_processed_ids d) Map.empty)"
      and ps="PATTERNS D" and v="loaded D base d" and w="announced D base d"]
  by (auto simp: startup_unfold finish_startup_fst loaded_def dom_def split: prod.splits if_splits)

lemma daily_loaded:
  "daily (loaded D base d) p date = (if p \<in> set (PATTERNS D) then get0 (load_pattern_counts d p) date else 0)"
  by (simp add: daily_def loaded_def)

lemma startup_daily_other:
  assumes "date \<noteq> today_utc D"
  shows "daily (fst (startup D api_url ok base d)) p date
           = (if p \<in> set (PATTERNS D) then get0 (load_pattern_counts d p) date else 0)"
  using store_backfill_daily_other[OF assms,
      where m="pattern_matches (backfill_today_patterns D base (load_processed_ids d) Map.empty)"
      and ps="PATTERNS D" and v="loaded D base d" and w="announced D base d" and p=p]
  by (simp add: startup_unfold finish_startup_fst daily_loaded split: prod.splits)

lemma startup_daily_today:
  assumes "p \<in> set (PATTERNS D)"
  shows "daily (fst (startup D api_url ok base d)) p (today_utc D)
           = (if 0 < get0 (pattern_matches (backfill_today_patterns D base (load_processed_ids d) Map.empty)) p
              then get0 (pattern_matches (backfill_today_patterns D base (load_processed_ids d) Map.empty)) p
              else get0 (load_pattern_counts d p) (today_utc D))"
proof -
  let ?m = "pattern_matches (backfill_today_patterns D base (load_processed_ids d) Map.empty)"
  from assms obtain n where n: "?m p = Some n"
    using backfill_matches_dom[of D base "load_processed_ids d" Map.empty] by blast
  have c: "pattern_counts (loaded D base d) p = Some (load_pattern_counts d p)"
    using assms by (simp add: loaded_def)
  show ?thesis
    using store_backfill_today[where m="?m" and p=p and n=n and v="loaded D base d"
        and c="load_pattern_counts d p" and D=D and ps="PATTERNS D" and w="announced D base d", OF n c]
      assms n
    by (simp add: startup_unfold finish_startup_fst daily_loaded get0_def)
qed

lemma startup_ready: "ready D (startup D api_url ok base d)"
proof -
  let ?m = "pattern_matches (backfill_today_patterns D base (load_processed_ids d) Map.empty)"
  obtain v3 w4 where sb: "store_backfill D ?m (PATTERNS D) (loaded D base d, announced D base d) = (v3, w4)"
    by (cases "store_backfill D ?m (PATTERNS D) (loaded D base d, announced D base d)")
  have fr: "total_messages_counts v3 = total_messages_counts (loaded D base d)"
      "total_messages_file (files w4) = total_messages_file (files (announced D base d))"
      "dom (pattern_counts v3) = dom (pattern_counts (loaded D base d))"
    using store_backfill_frame[where D=D and m="?m" and ps="PATTERNS D" and v="loaded D base d"
        and w="announced D base d"]
    by (simp_all add: sb)
  have "\<forall>name \<in> set (PATTERNS D). pattern_counts (loaded D base d) name
          = Some (load_pattern_counts (files (announced D base d)) name)"
    by (simp add: loaded_def files_announced load_pattern_counts_def)
  from store_backfill_synced[OF this, where D=D and m="?m" and ps="PATTERNS D"]
  have pats: "\<forall>name \<in> set (PATTERNS D). pattern_counts v3 name = Some (load_pattern_counts (files w4) name)"
    by (simp add: sb)
  have "synced D v3 (snd (finish_startup D api_url ok (v3, w4)))"
    using pats fr(1,2)
    by (simp add: synced_def finish_startup_files load_processed_ids_def load_project_counts_def
        load_total_messages_counts_def load_pattern_counts_def files_announced loaded_def)
  moreover have "set (PATTERNS D) \<subseteq> dom (pattern_counts v3)"
    unfolding fr(3) by (auto simp: loaded_def)
  ultimately show ?thesis
    by (simp add: ready_def startup_unfold sb finish_startup_fst)
qed

subsection \<open>Runs\<close>

lemma main_Some:
  "main D api_url ok (Some dirs) rounds d
     = foldl (steady_pass D api_url) (startup D api_url ok (Some dirs) d) rounds"
  by (simp add: main_def split: prod.splits)

lemma main_append:
  "main D api_url ok (Some dirs) (rounds @ later) d
     = foldl (steady_pass D api_url) (main D api_url ok (Some dirs) rounds d) later"
  by (simp add: main_Some)

lemma passes_ready: "ready D s \<Longrightarrow> ready D (foldl (steady_pass D api_url) s rounds)"
  by (induction rounds arbitrary: s) (simp_all add: steady_pass_ready)

lemma main_ready: "ready D (main D api_url ok (Some dirs) rounds d)"
  unfolding main_Some by (rule passes_ready) (rule startup_ready)

lemma ready_stored:
  assumes "ready D s"
  shows "p \<in> set (PATTERNS D) \<Longrightarrow> stored_daily (snd s) p date = daily (fst s) p date"
    and "stored_total (snd s) date = get0 (total_messages_counts (fst s)) date"
  using assms by (simp_all add: ready_def synced_def stored_daily_def stored_total_def daily_def)

lemma daily_tallies [simp]:
  "daily (v\<lparr>new_matches_by_pattern := a, new_total_messages := b\<rparr>) p date = daily v p date"
  by (simp add: daily_def)

lemma scan_pass_mono:
  "daily v p date \<le> daily (scan_pass D dirs v) p date
   \<and> get0 (total_messages_counts v) date \<le> get0 (total_messages_counts (scan_pass D dirs v)) date"
  using steady_scan_mono[of "v\<lparr>new_matches_by_pattern := zero_tally (PATTERNS D), new_total_messages := 0\<rparr>"
      p date D "scanned_lines D dirs"]
  by (simp add: scan_pass_flat)

lemma steady_pass_mono:
  "daily (fst s) p date \<le> daily (fst (steady_pass D api_url s r)) p date
   \<and> get0 (total_messages_counts (fst s)) date
       \<le> get0 (total_messages_counts (fst (steady_pass D api_url s r))) date"
  by (cases s, cases r) (simp add: steady_pass_vars scan_pass_mono)

lemma passes_mono:
  "daily (fst s) p date \<le> daily (fst (foldl (steady_pass D api_url) s rounds)) p date
   \<and> get0 (total_messages_counts (fst s)) date
       \<le> get0 (total_messages_counts (fst (foldl (steady_pass D api_url) s rounds))) date"
proof (induction rounds arbitrary: s)
  case Nil
  then show ?case by simp
next
  case (Cons r rounds)
  show ?case
    using Cons.IH[of "steady_pass D api_url s r"] steady_pass_mono[of s p date D api_url r]
    by simp
qed

lemma scan_pass_today:
  assumes "today_known D (processed_ids v) (scanned_lines D dirs)"
  shows "daily (scan_pass D dirs v) p (today_utc D) = daily v p (today_utc D)"
    and "get0 (total_messages_counts (scan_pass D dirs v)) (today_utc D)
           = get0 (total_messages_counts v) (today_utc D)"
    and "today_known D (processed_ids (scan_pass D dirs v)) (scanned_lines D dirs)"
proof -
  let ?v0 = "v\<lparr>new_matches_by_pattern := zero_tally (PATTERNS D), new_total_messages := 0\<rparr>"
  have tk: "today_known D (processed_ids ?v0) (scanned_lines D dirs)" using assms by simp
  show "daily (scan_pass D dirs v) p (today_utc D) = daily v p (today_utc D)"
    using steady_scan_today[OF tk, of p] by (simp add: scan_pass_flat)
  show "get0 (total_messages_counts (scan_pass D dirs v)) (today_utc D)
           = get0 (total_messages_counts v) (today_utc D)"
    using steady_scan_today[OF tk, of p] by (simp add: scan_pass_flat)
  show "today_known D (processed_ids (scan_pass D dirs v)) (scanned_lines D dirs)"
    using today_known_mono[OF tk steady_scan_processed_mono] by (simp add: scan_pass_flat)
qed

lemma passes_today:
  assumes "today_known D (processed_ids (fst s)) (scanned_lines D dirs)"
  shows "daily (fst (foldl (steady_pass D api_url) s (map (Pair dirs) oks))) p (today_utc D)
           = daily (fst s) p (today_utc D)
       \<and> get0 (total_messages_counts (fst (foldl (steady_pass D api_url) s (map (Pair dirs) oks)))) (today_utc D)
           = get0 (total_messages_counts (fst s)) (today_utc D)"
  using assms
proof (induction oks arbitrary: s)
  case Nil
  then show ?case by simp
next
  case (Cons ok oks)
  obtain v w where s: "s = (v, w)" by (cases s)
  from Cons.prems have tk: "today_known D (processed_ids v) (scanned_lines D dirs)" by (simp add: s)
  have 1: "fst (steady_pass D api_url s (dirs, ok)) = scan_pass D dirs v"
    by (simp add: s steady_pass_vars)
  have tk': "today_known D (processed_ids (fst (steady_pass D api_url s (dirs, ok)))) (scanned_lines D dirs)"
    unfolding 1 by (rule scan_pass_today(3)[OF tk])
  show ?case
    using Cons.IH[OF tk'] scan_pass_today(1)[OF tk, of p] scan_pass_today(2)[OF tk]
    by (simp add: s steady_pass_vars)
qed







subsection \<open>Lines that do not parse\<close>



subsection \<open>Runs of the engine\<close>

text \<open>
  Claim C3. After the backfill over the directory \<open>dirs\<close>, any number of steady-state
  passes over the same \<open>dirs\<close> (one for each upload outcome in \<open>oks\<close>) leave today's
  bucket of every per-pattern counter and of the total-message counter as the backfill
  left it, in memory and in the store files.
\<close>

theorem backfill_then_passes_same_today:
  "daily (fst (main D api_url ok (Some dirs) (map (Pair dirs) oks) d)) p (today_utc D)
     = daily (fst (main D api_url ok (Some dirs) [] d)) p (today_utc D)
   \<and> get0 (total_messages_counts (fst (main D api_url ok (Some dirs) (map (Pair dirs) oks) d))) (today_utc D)
     = get0 (total_messages_counts (fst (main D api_url ok (Some dirs) [] d))) (today_utc D)
   \<and> (p \<in> set (PATTERNS D) \<longrightarrow>
        stored_daily (snd (main D api_url ok (Some dirs) (map (Pair dirs) oks) d)) p (today_utc D)
          = stored_daily (snd (main D api_url ok (Some dirs) [] d)) p (today_utc D))
   \<and> stored_total (snd (main D api_url ok (Some dirs) (map (Pair dirs) oks) d)) (today_utc D)
     = stored_total (snd (main D api_url ok (Some dirs) [] d)) (today_utc D)"
proof -
  let ?s = "startup D api_url ok (Some dirs) d"
  let ?B = "main D api_url ok (Some dirs) (map (Pair dirs) oks) d"
  have A: "main D api_url ok (Some dirs) [] d = ?s" by (simp add: main_Some)
  have B: "?B = foldl (steady_pass D api_url) ?s (map (Pair dirs) oks)" by (rule main_Some)
  have tk: "today_known D (processed_ids (fst ?s)) (scanned_lines D dirs)"
    unfolding startup_frame by (rule backfill_today_known)
  note mem = passes_today[OF tk, of api_url oks p, folded B]
  have rA: "ready D ?s" by (rule startup_ready)
  have rB: "ready D ?B" by (rule main_ready)
  have sd: "p \<in> set (PATTERNS D) \<Longrightarrow>
      stored_daily (snd ?B) p (today_utc D) = stored_daily (snd ?s) p (today_utc D)"
    using ready_stored(1)[OF rA] ready_stored(1)[OF rB] mem by simp
  have stt: "stored_total (snd ?B) (today_utc D) = stored_total (snd ?s) (today_utc D)"
    using ready_stored(2)[OF rA] ready_stored(2)[OF rB] mem by simp
  show ?thesis unfolding A using mem sd stt by blast
qed

text \<open>Three matching messages of today and one of yesterday: 3 after the backfill, 3 after two passes.\<close>

theorem backfill_then_passes_same_today_witness:
  "''absolutely'' \<in> set (PATTERNS demo)
   \<and> stored_daily (snd (main demo None False (Some (one_file ''proj-a'' [''L2'', ''L3'', ''L4'', ''L6'']))
        (map (Pair (one_file ''proj-a'' [''L2'', ''L3'', ''L4'', ''L6''])) [True, False]) stale_files))
       ''absolutely'' ''2024-01-02'' = 3
   \<and> daily (fst (main demo None False (Some (one_file ''proj-a'' [''L2'', ''L3'', ''L4'', ''L6'']))
        (map (Pair (one_file ''proj-a'' [''L2'', ''L3'', ''L4'', ''L6''])) [True, False]) stale_files))
       ''absolutely'' ''2024-01-02'' = 3"
proof -
  have p: "''absolutely'' \<in> set (PATTERNS demo)" by (simp add: demo_def)
  have t: "today_utc demo = ''2024-01-02''" by (simp add: demo_def)
  have e: "stored_daily (snd (main demo None False (Some (one_file ''proj-a'' [''L2'', ''L3'', ''L4'', ''L6''])) [] stale_files))
       ''absolutely'' ''2024-01-02'' = 3
     \<and> daily (fst (main demo None False (Some (one_file ''proj-a'' [''L2'', ''L3'', ''L4'', ''L6''])) [] stale_files))
       ''absolutely'' ''2024-01-02'' = 3"
    by code_simp
  note th = backfill_then_passes_same_today[of demo None False "one_file ''proj-a'' [''L2'', ''L3'', ''L4'', ''L6'']"
      "[True, False]" stale_files "''absolutely''", unfolded t]
  from th p e show ?thesis by simp
qed

text \<open>
  Claim C5. With the scan root present: for a date other than today, startup leaves the
  value of every per-pattern daily counter as it was loaded; from the end of startup
  on, where the backfill has had its one chance to overwrite today's value, the value for
  every date, today included, never decreases from one pass to any later pass, in memory
  and in the store files.
\<close>

theorem daily_counters_monotone:
  "(date \<noteq> today_utc D \<and> p \<in> set (PATTERNS D) \<longrightarrow>
      daily (fst (main D api_url ok (Some dirs) [] d)) p date = get0 (load_pattern_counts d p) date
      \<and> stored_daily (snd (main D api_url ok (Some dirs) [] d)) p date = get0 (load_pattern_counts d p) date)
   \<and> daily (fst (main D api_url ok (Some dirs) rounds d)) p date
       \<le> daily (fst (main D api_url ok (Some dirs) (rounds @ later) d)) p date
   \<and> (p \<in> set (PATTERNS D) \<longrightarrow>
        stored_daily (snd (main D api_url ok (Some dirs) rounds d)) p date
          \<le> stored_daily (snd (main D api_url ok (Some dirs) (rounds @ later) d)) p date)"
proof -
  let ?s = "startup D api_url ok (Some dirs) d"
  have A: "main D api_url ok (Some dirs) [] d = ?s" by (simp add: main_Some)
  have rA: "ready D ?s" by (rule startup_ready)
  have 1: "date \<noteq> today_utc D \<and> p \<in> set (PATTERNS D) \<longrightarrow>
      daily (fst ?s) p date = get0 (load_pattern_counts d p) date
      \<and> stored_daily (snd ?s) p date = get0 (load_pattern_counts d p) date"
    using startup_daily_other[of date D api_url ok "Some dirs" d p] ready_stored(1)[OF rA, of p date]
    by simp
  have 2: "daily (fst (main D api_url ok (Some dirs) rounds d)) p date
       \<le> daily (fst (main D api_url ok (Some dirs) (rounds @ later) d)) p date"
    unfolding main_append using passes_mono by blast
  have 3: "p \<in> set (PATTERNS D) \<Longrightarrow>
        stored_daily (snd (main D api_url ok (Some dirs) rounds d)) p date
          \<le> stored_daily (snd (main D api_url ok (Some dirs) (rounds @ later) d)) p date"
    using 2 ready_stored(1)[OF main_ready, of p D api_url ok dirs _ d date] by simp
  show ?thesis unfolding A using 1 2 3 by blast
qed

text \<open>Yesterday's stored 7 survives startup and becomes 8 when a pass finds a late message of yesterday.\<close>

theorem daily_counters_monotone_witness:
  "''2024-01-01'' \<noteq> today_utc demo \<and> ''absolutely'' \<in> set (PATTERNS demo)
   \<and> stored_daily (snd (main demo None False (Some (one_file ''proj-a'' [''L2''])) [] stale_files))
        ''absolutely'' ''2024-01-01'' = 7
   \<and> stored_daily (snd (main demo None False (Some (one_file ''proj-a'' [''L2'']))
        ([] @ [(one_file ''proj-a'' [''L2'', ''L6''], True)]) stale_files)) ''absolutely'' ''2024-01-01'' = 8
   \<and> stored_daily (snd (main demo None False (Some (one_file ''proj-a'' [''L2''])) [] stale_files))
        ''absolutely'' ''2024-01-01''
      \<le> stored_daily (snd (main demo None False (Some (one_file ''proj-a'' [''L2'']))
        ([] @ [(one_file ''proj-a'' [''L2'', ''L6''], True)]) stale_files)) ''absolutely'' ''2024-01-01''"
proof -
  have d: "''2024-01-01'' \<noteq> today_utc demo" by (simp add: demo_def)
  have p: "''absolutely'' \<in> set (PATTERNS demo)" by (simp add: demo_def)
  have l: "get0 (load_pattern_counts stale_files ''absolutely'') ''2024-01-01'' = 7"
    by (simp add: load_pattern_counts_def stale_files_def no_files_def get0_def)
  have e: "stored_daily (snd (main demo None False (Some (one_file ''proj-a'' [''L2'']))
        ([] @ [(one_file ''proj-a'' [''L2'', ''L6''], True)]) stale_files)) ''absolutely'' ''2024-01-01'' = 8"
    by code_simp
  note th = daily_counters_monotone[of "''2024-01-01''" demo "''absolutely''" None False
      "one_file ''proj-a'' [''L2'']" stale_files "[]" "[(one_file ''proj-a'' [''L2'', ''L6''], True)]"]
  from th d p l e show ?thesis by simp
qed

text \<open>
  Claim C9. The variables after a pass and the store files after it do not depend on
  what \<open>upload_to_api\<close> returns. In a pass with new activity every store file is
  written, with the values the variables have after the scan, before the call of
  \<open>upload_to_api\<close>; nothing is written after it, and its outcome decides only whether
  the line about the upload is printed. A pass without new activity writes and uploads
  nothing.
\<close>

theorem persistence_precedes_upload:
  "fst (steady_pass D api_url (v, w) (dirs, ok)) = scan_pass D dirs v
   \<and> files (snd (steady_pass D api_url (v, w) (dirs, ok)))
       = files (snd (steady_pass D api_url (v, w) (dirs, \<not> ok)))
   \<and> (new_activity D (scan_pass D dirs v) \<longrightarrow>
        trace (snd (steady_pass D api_url (v, w) (dirs, ok)))
          = trace w @ [Wrote ProjectCountsFile, Wrote ProcessedIdsFile]
            @ map (\<lambda>name. Wrote (PatternCountsFile name))
                (filter (\<lambda>name. pattern_counts (scan_pass D dirs v) name \<noteq> None) (PATTERNS D))
            @ [Wrote TotalMessagesFile, Printed Updated]
            @ (if url_set api_url
               then upload_event D (scan_pass D dirs v) # (if ok then [Printed UploadedToApi] else [])
               else [])
        \<and> processed_ids_file (files (snd (steady_pass D api_url (v, w) (dirs, ok))))
            = Some (processed_ids (scan_pass D dirs v))
        \<and> project_counts_file (files (snd (steady_pass D api_url (v, w) (dirs, ok))))
            = Some (project_counts (scan_pass D dirs v))
        \<and> total_messages_file (files (snd (steady_pass D api_url (v, w) (dirs, ok))))
            = Some (total_messages_counts (scan_pass D dirs v))
        \<and> (\<forall>name \<in> set (PATTERNS D). pattern_counts (scan_pass D dirs v) name \<noteq> None \<longrightarrow>
              pattern_counts_files (files (snd (steady_pass D api_url (v, w) (dirs, ok)))) name
                = pattern_counts (scan_pass D dirs v) name))
   \<and> (\<not> new_activity D (scan_pass D dirs v) \<longrightarrow> snd (steady_pass D api_url (v, w) (dirs, ok)) = w)"
  by (simp add: steady_pass_def Let_def save_all_files save_all_trace)

text \<open>One new message with an endpoint configured whose upload fails.\<close>

theorem persistence_precedes_upload_witness:
  "new_activity demo (scan_pass demo (one_file ''proj-a'' [''L1'']) demo_vars)
   \<and> trace (snd (steady_pass demo (Some ''http://h'') (demo_vars, \<lparr>files = no_files, trace = []\<rparr>)
                   (one_file ''proj-a'' [''L1''], False)))
       = [Wrote ProjectCountsFile, Wrote ProcessedIdsFile, Wrote (PatternCountsFile ''absolutely''),
          Wrote (PatternCountsFile ''perfect''), Wrote TotalMessagesFile, Printed Updated,
          Uploaded ''2024-01-02'' [(''absolutely'', 1), (''perfect'', 1)] 1]
   \<and> files (snd (steady_pass demo (Some ''http://h'') (demo_vars, \<lparr>files = no_files, trace = []\<rparr>)
                   (one_file ''proj-a'' [''L1''], False)))
       = files (snd (steady_pass demo (Some ''http://h'') (demo_vars, \<lparr>files = no_files, trace = []\<rparr>)
                   (one_file ''proj-a'' [''L1''], True)))"
proof -
  have a: "new_activity demo (scan_pass demo (one_file ''proj-a'' [''L1'']) demo_vars)"
    by code_simp
  have u: "upload_event demo (scan_pass demo (one_file ''proj-a'' [''L1'']) demo_vars)
      = Uploaded ''2024-01-02'' [(''absolutely'', 1), (''perfect'', 1)] 1"
    by code_simp
  have k: "filter (\<lambda>name. pattern_counts (scan_pass demo (one_file ''proj-a'' [''L1'']) demo_vars) name \<noteq> None)
             (PATTERNS demo) = [''absolutely'', ''perfect'']"
  proof -
    have dm: "dom (pattern_counts (scan_pass demo (one_file ''proj-a'' [''L1'']) demo_vars))
        = {''absolutely'', ''perfect''}"
      unfolding scan_pass_dom by (auto simp: demo_vars_def)
    have a1: "pattern_counts (scan_pass demo (one_file ''proj-a'' [''L1'']) demo_vars) ''absolutely'' \<noteq> None"
      using dm by blast
    have a2: "pattern_counts (scan_pass demo (one_file ''proj-a'' [''L1'']) demo_vars) ''perfect'' \<noteq> None"
      using dm by blast
    have P: "PATTERNS demo = [''absolutely'', ''perfect'']" by (simp add: demo_def)
    show ?thesis unfolding P using a1 a2 by simp
  qed
  note th = persistence_precedes_upload[of demo "Some ''http://h''" demo_vars "\<lparr>files = no_files, trace = []\<rparr>"
      "one_file ''proj-a'' [''L1'']" False]
  from th a u k show ?thesis by (simp add: url_set_def)
qed

subsection \<open>Counting each message once\<close>




text \<open>
  Claim C4. A message that is new adds 1 to the daily counter of every tracked pattern
  that some block of it matches, in whatever number of blocks, nothing to the other
  patterns, and 1 to the total-message counter of its date; the backfill tallies it in
  the same way.
\<close>

theorem message_counts_once_per_pattern:
  assumes "line_result D l = Some r" and "matched r \<subseteq> set (PATTERNS D)"
  shows "(msg_id r \<notin> processed_ids v \<and> keys_ok D v \<longrightarrow>
            daily (steady_line D pn v l) p date
              = daily v p date + (if p \<in> matched r \<and> date = date_str r then 1 else 0)
            \<and> get0 (total_messages_counts (steady_line D pn v l)) date
              = get0 (total_messages_counts v) date + (if date = date_str r then 1 else 0)
            \<and> get0 (new_matches_by_pattern (steady_line D pn v l)) p
              = get0 (new_matches_by_pattern v) p + (if p \<in> matched r then 1 else 0)
            \<and> new_total_messages (steady_line D pn v l) = new_total_messages v + 1)
       \<and> (date_str r = today_utc D \<and> msg_id r \<notin> seen_today b
            \<and> set (PATTERNS D) \<subseteq> dom (pattern_matches b) \<longrightarrow>
            get0 (pattern_matches (backfill_line D pn b l)) p
              = get0 (pattern_matches b) p + (if p \<in> matched r then 1 else 0))"
  using steady_line_exact(1)[OF assms(1) _ assms(2), of v pn p date]
    steady_line_exact(3)[OF assms(1) _ assms(2), of v pn p]
    steady_line_exact(4)[OF assms(1) _ assms(2), of v pn date]
    steady_line_exact(5)[OF assms(1) _ assms(2), of v pn]
    backfill_line_exact(1)[OF assms(1) _ _ assms(2), of b pn p]
  by blast

text \<open>\<open>m1\<close> matches one pattern in two blocks and another in one: each counter and the total get 1.\<close>

theorem message_counts_once_per_pattern_witness:
  "line_result demo ''L1'' = Some \<lparr>msg_id = ''m1'', date_str = ''2024-01-02'',
               text_blocks = [(''Absolutely. Perfect.'', [''absolutely'', ''perfect'']),
                              (''absolutely'', [''absolutely''])]\<rparr>
   \<and> daily (steady_line demo ''proj-a'' demo_vars ''L1'') ''absolutely'' ''2024-01-02'' = 1
   \<and> daily (steady_line demo ''proj-a'' demo_vars ''L1'') ''perfect'' ''2024-01-02'' = 1
   \<and> get0 (total_messages_counts (steady_line demo ''proj-a'' demo_vars ''L1'')) ''2024-01-02'' = 1
   \<and> get0 (pattern_matches (backfill_line demo ''proj-a'' demo_bvars ''L1'')) ''absolutely'' = 1
   \<and> get0 (pattern_matches (backfill_line demo ''proj-a'' demo_bvars ''L1'')) ''perfect'' = 1"
proof -
  let ?r = "\<lparr>msg_id = ''m1'', date_str = ''2024-01-02'',
               text_blocks = [(''Absolutely. Perfect.'', [''absolutely'', ''perfect'']),
                              (''absolutely'', [''absolutely''])]\<rparr>"
  have r: "line_result demo ''L1'' = Some ?r"
    by (simp add: line_result_def demo_def demo_messages_def demo_entry_def)
  have m: "matched ?r = {''absolutely'', ''perfect''}"
    by (auto simp: matched_def)
  have s: "matched ?r \<subseteq> set (PATTERNS demo)"
    unfolding m by (simp add: demo_def)
  have h1: "msg_id ?r \<notin> processed_ids demo_vars \<and> keys_ok demo demo_vars"
    by (simp add: demo_vars_def keys_ok_def demo_def zero_tally_def)
  have h2: "date_str ?r = today_utc demo \<and> msg_id ?r \<notin> seen_today demo_bvars
            \<and> set (PATTERNS demo) \<subseteq> dom (pattern_matches demo_bvars)"
    by (simp add: demo_bvars_def demo_def zero_tally_def dom_def)
  have z: "daily demo_vars p ''2024-01-02'' = 0" "get0 (total_messages_counts demo_vars) ''2024-01-02'' = 0"
      "get0 (pattern_matches demo_bvars) p = 0" for p
    by (simp_all add: daily_def demo_vars_def demo_bvars_def get0_def zero_tally_def)
  note th1 = message_counts_once_per_pattern[OF r s, of demo_vars "''proj-a''" "''absolutely''" "''2024-01-02''" demo_bvars]
  note th2 = message_counts_once_per_pattern[OF r s, of demo_vars "''proj-a''" "''perfect''" "''2024-01-02''" demo_bvars]
  from th1 th2 h1 h2 z m r show ?thesis by simp
qed

subsection \<open>Startup without a scan root, and stale counts\<close>

lemma main_no_dir:
  "fst (main D api_url ok None rounds d) = loaded D None d
   \<and> files (snd (main D api_url ok None rounds d))
       = d\<lparr>total_messages_file := Some ((load_total_messages_counts d)(today_utc D \<mapsto> 0)),
           processed_ids_file := Some (load_processed_ids d),
           project_counts_file := Some Map.empty\<rparr>
   \<and> trace (snd (main D api_url ok None rounds d))
       = [Printed Banner, Wrote TotalMessagesFile, Printed (FoundTotal 0),
          Wrote ProcessedIdsFile, Wrote ProjectCountsFile]
         @ (if url_set api_url
            then [Printed UploadingToday, upload_event D (loaded D None d),
                  Printed (if ok then UploadSuccessful else UploadFailed)]
            else [])
         @ [Printed Separator, Printed ProjectsDirNotFound, Printed SetEnvironmentHint]"
proof -
  have t: "backfill_today_total_messages D None = 0"
    by (simp add: backfill_today_total_messages_def)
  have b: "backfill_today_patterns D None ids counts
      = \<lparr>pattern_matches = zero_tally (PATTERNS D), seen_today = {},
         bf_processed_ids = ids, bf_project_counts = counts\<rparr>" for ids counts
    by (simp add: backfill_today_patterns_def)
  have idle: "store_backfill D (zero_tally (PATTERNS D)) (PATTERNS D) (loaded D None d, announced D None d)
      = (loaded D None d, announced D None d)"
    by (rule store_backfill_idle) (simp add: zero_tally_def)
  have st: "startup D api_url ok None d
      = finish_startup D api_url ok (loaded D None d, announced D None d)"
    by (simp add: startup_unfold b idle)
  have l: "processed_ids (loaded D None d) = load_processed_ids d"
      "project_counts (loaded D None d) = Map.empty"
    by (simp_all add: loaded_def b)
  have m: "main D api_url ok None rounds d
      = (loaded D None d,
         emit (Printed SetEnvironmentHint) (emit (Printed ProjectsDirNotFound)
           (snd (finish_startup D api_url ok (loaded D None d, announced D None d)))))"
    by (simp add: main_def st finish_startup_def Let_def)
  have 1: "fst (main D api_url ok None rounds d) = loaded D None d"
    by (simp add: m)
  have 2: "files (snd (main D api_url ok None rounds d))
       = d\<lparr>total_messages_file := Some ((load_total_messages_counts d)(today_utc D \<mapsto> 0)),
           processed_ids_file := Some (load_processed_ids d),
           project_counts_file := Some Map.empty\<rparr>"
    by (simp add: m finish_startup_files files_announced t l)
  have 3: "trace (snd (main D api_url ok None rounds d))
       = [Printed Banner, Wrote TotalMessagesFile, Printed (FoundTotal 0),
          Wrote ProcessedIdsFile, Wrote ProjectCountsFile]
         @ (if url_set api_url
            then [Printed UploadingToday, upload_event D (loaded D None d),
                  Printed (if ok then UploadSuccessful else UploadFailed)]
            else [])
         @ [Printed Separator, Printed ProjectsDirNotFound, Printed SetEnvironmentHint]"
    by (simp add: m finish_startup_def announced_def Let_def t)
  from 1 2 3 show ?thesis by blast
qed

text \<open>
  With no scan root and no store file, a run writes three store files before it prints
  the error.
\<close>

theorem missing_directory_writes_stores:
  "trace (snd (main demo None False None [] no_files))
     = [Printed Banner, Wrote TotalMessagesFile, Printed (FoundTotal 0), Wrote ProcessedIdsFile,
        Wrote ProjectCountsFile, Printed Separator, Printed ProjectsDirNotFound,
        Printed SetEnvironmentHint]
   \<and> total_messages_file no_files = None
   \<and> total_messages_file (files (snd (main demo None False None [] no_files))) \<noteq> None
   \<and> processed_ids_file (files (snd (main demo None False None [] no_files))) \<noteq> None
   \<and> project_counts_file (files (snd (main demo None False None [] no_files))) \<noteq> None"
  using main_no_dir[of demo None False "[]" no_files]
  by (simp add: url_set_def no_files_def)

text \<open>
  Claim C6, as the code has it. When the scan root does not exist, the run scans
  nothing and never enters the loop (the result does not depend on \<open>rounds\<close>): the
  processed ids and the per-pattern counters stay as loaded and no per-pattern file is
  written. But before the error is printed, today's total is set to 0 and the
  total-message file is written, the processed ids are written back, the per-project
  counters are emptied and written, and today's counts are uploaded when an endpoint is
  configured.
\<close>

theorem missing_directory_run:
  "fst (main D api_url ok None rounds d) = loaded D None d
   \<and> processed_ids (loaded D None d) = load_processed_ids d
   \<and> project_counts (loaded D None d) = Map.empty
   \<and> daily (loaded D None d) p date = (if p \<in> set (PATTERNS D) then get0 (load_pattern_counts d p) date else 0)
   \<and> total_messages_counts (loaded D None d) = (load_total_messages_counts d)(today_utc D \<mapsto> 0)
   \<and> files (snd (main D api_url ok None rounds d))
       = d\<lparr>total_messages_file := Some ((load_total_messages_counts d)(today_utc D \<mapsto> 0)),
           processed_ids_file := Some (load_processed_ids d),
           project_counts_file := Some Map.empty\<rparr>
   \<and> trace (snd (main D api_url ok None rounds d))
       = [Printed Banner, Wrote TotalMessagesFile, Printed (FoundTotal 0),
          Wrote ProcessedIdsFile, Wrote ProjectCountsFile]
         @ (if url_set api_url
            then [Printed UploadingToday, upload_event D (loaded D None d),
                  Printed (if ok then UploadSuccessful else UploadFailed)]
            else [])
         @ [Printed Separator, Printed ProjectsDirNotFound, Printed SetEnvironmentHint]"
  using main_no_dir[of D api_url ok rounds d] daily_loaded[of D None d p date]
  by (simp add: loaded_def backfill_today_patterns_def backfill_today_total_messages_def)

text \<open>A run without scan root over the files of an earlier run.\<close>

theorem missing_directory_run_witness:
  "main demo None False None [(one_file ''proj-a'' [''L1''], True)] stale_files
     = main demo None False None [] stale_files
   \<and> daily (fst (main demo None False None [] stale_files)) ''absolutely'' ''2024-01-02'' = 5
   \<and> trace (snd (main demo None False None [] stale_files))
     = [Printed Banner, Wrote TotalMessagesFile, Printed (FoundTotal 0), Wrote ProcessedIdsFile,
        Wrote ProjectCountsFile, Printed Separator, Printed ProjectsDirNotFound,
        Printed SetEnvironmentHint]"
proof -
  have a: "main demo None False None [(one_file ''proj-a'' [''L1''], True)] stale_files
     = main demo None False None [] stale_files"
    by (simp add: main_def)
  have p: "''absolutely'' \<in> set (PATTERNS demo)" by (simp add: demo_def)
  have v: "get0 (load_pattern_counts stale_files ''absolutely'') ''2024-01-02'' = 5"
    by (simp add: load_pattern_counts_def stale_files_def no_files_def get0_def)
  note th = missing_directory_run[of demo None False "[]" stale_files "''absolutely''" "''2024-01-02''"]
  have b: "daily (fst (main demo None False None [] stale_files)) ''absolutely'' ''2024-01-02'' = 5"
    using th p v by simp
  have c: "trace (snd (main demo None False None [] stale_files))
     = [Printed Banner, Wrote TotalMessagesFile, Printed (FoundTotal 0), Wrote ProcessedIdsFile,
        Wrote ProjectCountsFile, Printed Separator, Printed ProjectsDirNotFound,
        Printed SetEnvironmentHint]"
    using th by (simp add: url_set_def)
  from a b c show ?thesis by blast
qed

text \<open>
  Claim C1, at an input where the code departs from it. The files of an earlier run
  hold 5 for today's count of a pattern; the backfill scans one message of today that
  matches nothing, so the fresh total of the pattern is 0. Lines 252-256 store a fresh
  total only when it is positive: the stored value stays 5 in memory and in the file,
  while the total-message counter is set to the fresh 1.
\<close>

theorem stale_count_survives_empty_backfill:
  "get0 (pattern_matches
          (backfill_today_patterns demo (Some (one_file ''proj-a'' [''L5''])) {} Map.empty))
      ''absolutely'' = 0
   \<and> stored_daily \<lparr>files = stale_files, trace = []\<rparr> ''absolutely'' ''2024-01-02'' = 5
   \<and> daily (fst (main demo None False (Some (one_file ''proj-a'' [''L5''])) [] stale_files))
        ''absolutely'' ''2024-01-02'' = 5
   \<and> stored_daily (snd (main demo None False (Some (one_file ''proj-a'' [''L5''])) [] stale_files))
        ''absolutely'' ''2024-01-02'' = 5
   \<and> get0 (total_messages_counts
             (fst (main demo None False (Some (one_file ''proj-a'' [''L5''])) [] stale_files)))
        ''2024-01-02'' = 1"
  by code_simp

text \<open>
  Where the fresh total is positive the stored value is replaced by it, and a later pass
  adds to it: 5 becomes 3, then 4.
\<close>

lemma overwrite_then_add_example:
  "stored_daily (snd (main demo None False (Some (one_file ''proj-a'' [''L2'', ''L3'', ''L4''])) [] stale_files))
      ''absolutely'' ''2024-01-02'' = 3
   \<and> stored_daily (snd (main demo None False (Some (one_file ''proj-a'' [''L2'', ''L3'', ''L4'']))
        [(one_file ''proj-a'' [''L2'', ''L3'', ''L4'', ''L1''], True)] stale_files))
      ''absolutely'' ''2024-01-02'' = 4"
  by code_simp

end
